theory Spec2Isabelle
  imports Main "HOL-Library.Word"
begin

section \<open>JavaScript strings\<close>

text \<open>
  A JavaScript string is a sequence of UTF-16 code units. The code units matter here:
  the regular expression \<^verbatim>\<open>.\<close> excludes the four line terminators, two of which
  (U+2028, U+2029) lie outside Latin-1, and \<^verbatim>\<open>\s\<close> and \<^verbatim>\<open>String.prototype.trim\<close>
  use the full ECMAScript white space set.
\<close>

type_synonym jschar = "16 word"
type_synonym jsstring = "jschar list"

definition js :: "string \<Rightarrow> jsstring" where
  "js s = map of_char s"

definition isLineTerminator :: "jschar \<Rightarrow> bool" where
  "isLineTerminator c = (c = 0x0A \<or> c = 0x0D \<or> c = 0x2028 \<or> c = 0x2029)"

text \<open>The class \<^verbatim>\<open>\s\<close>, which is also what \<^verbatim>\<open>trim\<close> strips: WhiteSpace and LineTerminator.\<close>

definition isWhiteSpace :: "jschar \<Rightarrow> bool" where
  "isWhiteSpace c =
     (c = 0x09 \<or> c = 0x0A \<or> c = 0x0B \<or> c = 0x0C \<or> c = 0x0D \<or> c = 0x20 \<or> c = 0xA0 \<or>
      c = 0x1680 \<or> (0x2000 \<le> c \<and> c \<le> 0x200A) \<or> c = 0x2028 \<or> c = 0x2029 \<or>
      c = 0x202F \<or> c = 0x205F \<or> c = 0x3000 \<or> c = 0xFEFF)"

text \<open>The class \<^verbatim>\<open>\d\<close> (without the unicode flag): the ten ASCII digits.\<close>

definition isDigit :: "jschar \<Rightarrow> bool" where
  "isDigit c = (0x30 \<le> c \<and> c \<le> 0x39)"

definition trim :: "jsstring \<Rightarrow> jsstring" where
  "trim s = rev (dropWhile isWhiteSpace (rev (dropWhile isWhiteSpace s)))"

definition endsWith :: "jsstring \<Rightarrow> jsstring \<Rightarrow> bool" where
  "endsWith s suffix =
     (length suffix \<le> length s \<and> drop (length s - length suffix) s = suffix)"

text \<open>Template literal \<^verbatim>\<open>${n}\<close> of a non-negative integer: its decimal digits.\<close>

function dec :: "nat \<Rightarrow> jsstring" where
  "dec n = (if n < 10 then [of_nat (48 + n)] else dec (n div 10) @ [of_nat (48 + n mod 10)])"
  by pat_completeness auto
termination
  by (relation "measure (\<lambda>n. n)") auto

declare dec.simps [simp del]

text \<open>\<^verbatim>\<open>url.split("/").pop()\<close> and \<^verbatim>\<open>url.substring(url.lastIndexOf("/") + 1)\<close>: what follows
  the last slash, the whole string when there is none.\<close>

definition lastSegment :: "jsstring \<Rightarrow> jsstring" where
  "lastSegment url = rev (takeWhile (\<lambda>c. c \<noteq> 0x2F) (rev url))"

text \<open>
  \<^verbatim>\<open>path.join(a, b)\<close> of Node on a POSIX host: the arguments that are not empty are
  joined with a slash and the result is normalized. \<open>segments\<close> cuts a path at its
  slashes. \<open>normalizeString\<close> is Node's function of that name on the segments: empty
  segments and \<^verbatim>\<open>.\<close> are dropped, \<^verbatim>\<open>..\<close> removes the segment before it, and is kept
  when there is none to remove only in a relative path (\<open>res\<close> holds the segments kept
  so far, the last one first).
\<close>

fun segments :: "jsstring \<Rightarrow> jsstring list" where
  "segments [] = [[]]"
| "segments (c # cs) =
     (if c = 0x2F then [] # segments cs
      else (case segments cs of [] \<Rightarrow> [[c]] | seg # segs \<Rightarrow> (c # seg) # segs))"

fun normalizeString :: "bool \<Rightarrow> jsstring list \<Rightarrow> jsstring list \<Rightarrow> jsstring list" where
  "normalizeString allowAboveRoot res [] = rev res"
| "normalizeString allowAboveRoot res (seg # segs) =
     (if seg = [] \<or> seg = [0x2E] then normalizeString allowAboveRoot res segs
      else if seg = [0x2E, 0x2E] then
        (case res of
           [] \<Rightarrow> normalizeString allowAboveRoot (if allowAboveRoot then [seg] else []) segs
         | lastSeg # before \<Rightarrow>
             if lastSeg = [0x2E, 0x2E]
             then normalizeString allowAboveRoot (if allowAboveRoot then seg # res else res) segs
             else normalizeString allowAboveRoot before segs)
      else normalizeString allowAboveRoot (seg # res) segs)"

fun join_slash :: "jsstring list \<Rightarrow> jsstring" where
  "join_slash [] = []"
| "join_slash [seg] = seg"
| "join_slash (seg # next # segs) = seg @ 0x2F # join_slash (next # segs)"

text \<open>\<^verbatim>\<open>path.normalize(path)\<close>: an absolute path stays absolute and a trailing slash is
  kept; the path that normalizes to nothing is \<^verbatim>\<open>/\<close>, \<^verbatim>\<open>./\<close> or \<^verbatim>\<open>.\<close>.\<close>

definition path_normalize :: "jsstring \<Rightarrow> jsstring" where
  "path_normalize path =
     (if path = [] then [0x2E]
      else
        (let isAbsolute = (hd path = 0x2F);
             trailingSeparator = (last path = 0x2F);
             res = join_slash (normalizeString (\<not> isAbsolute) [] (segments path))
         in if res = []
            then (if isAbsolute then [0x2F] else if trailingSeparator then [0x2E, 0x2F] else [0x2E])
            else (if isAbsolute then [0x2F] else []) @ res @
                 (if trailingSeparator then [0x2F] else [])))"

definition path_join :: "jsstring \<Rightarrow> jsstring \<Rightarrow> jsstring" where
  "path_join a b =
     path_normalize (if a = [] then b else if b = [] then a else a @ 0x2F # b)"

section \<open>Regular expressions\<close>

text \<open>
  The regular expressions of the source are alternatives of sequences of quantified
  character classes. \<open>Piece p lo hi\<close> is the class \<open>p\<close> repeated greedily between
  \<open>lo\<close> and \<open>hi\<close> times (\<open>None\<close>: unbounded). \<open>match_seq\<close> is the backtracking matcher
  anchored at the start of its input: it tries the longest repetition first, then shorter
  ones (the candidates are the inputs left after \<open>k\<close> repetitions), and returns the rest
  of the input after the first match in that order.
\<close>

datatype piece = Piece "jschar \<Rightarrow> bool" nat "nat option"

fun first_some :: "('a \<Rightarrow> 'b option) \<Rightarrow> 'a list \<Rightarrow> 'b option" where
  "first_some f [] = None"
| "first_some f (x # xs) = (case f x of Some y \<Rightarrow> Some y | None \<Rightarrow> first_some f xs)"

fun match_seq :: "piece list \<Rightarrow> jsstring \<Rightarrow> jsstring option" where
  "match_seq [] s = Some s"
| "match_seq (Piece p lo hi # ps) s =
     (let avail = length (takeWhile p s);
          most = (case hi of None \<Rightarrow> avail | Some h \<Rightarrow> min h avail)
      in first_some (match_seq ps) (map (\<lambda>k. drop k s) (rev [lo ..< Suc most])))"

definition match_alt :: "piece list list \<Rightarrow> jsstring \<Rightarrow> jsstring option" where
  "match_alt re s = first_some (\<lambda>ps. match_seq ps s) re"

text \<open>
  \<^verbatim>\<open>s.replace(re, rep)\<close> and \<^verbatim>\<open>s.match(re)\<close> for a regular expression with the \<^verbatim>\<open>g\<close> flag:
  the input is scanned from left to right, a match resumes the scan after itself, an
  empty match advances by one code unit. \<^verbatim>\<open>match\<close> returns null when nothing matched.
\<close>

function replace_g :: "piece list list \<Rightarrow> jsstring \<Rightarrow> jsstring \<Rightarrow> jsstring" where
  "replace_g re rep [] = (case match_alt re [] of None \<Rightarrow> [] | Some r \<Rightarrow> rep)"
| "replace_g re rep (c # cs) =
     (case match_alt re (c # cs) of
        None \<Rightarrow> c # replace_g re rep cs
      | Some r \<Rightarrow>
          if length r < length (c # cs) then rep @ replace_g re rep r
          else rep @ c # replace_g re rep cs)"
  by pat_completeness auto
termination
  by (relation "measure (\<lambda>(re, rep, s). length s)") auto

function matches_g :: "piece list list \<Rightarrow> jsstring \<Rightarrow> jsstring list" where
  "matches_g re [] = (case match_alt re [] of None \<Rightarrow> [] | Some r \<Rightarrow> [[]])"
| "matches_g re (c # cs) =
     (case match_alt re (c # cs) of
        None \<Rightarrow> matches_g re cs
      | Some r \<Rightarrow>
          if length r < length (c # cs)
          then take (length (c # cs) - length r) (c # cs) # matches_g re r
          else [] # matches_g re cs)"
  by pat_completeness auto
termination
  by (relation "measure (\<lambda>(re, s). length s)") auto

definition js_match :: "piece list list \<Rightarrow> jsstring \<Rightarrow> jsstring list option" where
  "js_match re s = (case matches_g re s of [] \<Rightarrow> None | m # ms \<Rightarrow> Some (m # ms))"

definition one :: "(jschar \<Rightarrow> bool) \<Rightarrow> piece" where
  "one p = Piece p 1 (Some 1)"

definition opt :: "(jschar \<Rightarrow> bool) \<Rightarrow> piece" where
  "opt p = Piece p 0 (Some 1)"

definition plus :: "(jschar \<Rightarrow> bool) \<Rightarrow> piece" where
  "plus p = Piece p 1 None"

definition lit :: "string \<Rightarrow> piece list" where
  "lit s = map (\<lambda>c. one (\<lambda>d. d = of_char c)) s"

text \<open>\<^verbatim>\<open>/[\n\r]+/g\<close>\<close>

definition re_newlines :: "piece list list" where
  "re_newlines = [[plus (\<lambda>c. c = 0x0A \<or> c = 0x0D)]]"

text \<open>\<^verbatim>\<open>\d+:\d+:\d+,\d+\<close>, which the next expression uses twice.\<close>

definition re_time :: "piece list" where
  "re_time =
     [plus isDigit] @ lit '':'' @ [plus isDigit] @ lit '':'' @ [plus isDigit] @ lit '','' @
     [plus isDigit]"

text \<open>\<^verbatim>\<open>/\d+\s\d+:\d+:\d+,\d+\s-->\s\d+:\d+:\d+,\d+\s|\s?<i>|<\/i>\s?/g\<close>\<close>

definition re_markup :: "piece list list" where
  "re_markup =
     [ [plus isDigit, one isWhiteSpace] @ re_time @ [one isWhiteSpace] @ lit ''-->'' @
         [one isWhiteSpace] @ re_time @ [one isWhiteSpace],
       [opt isWhiteSpace] @ lit ''<i>'',
       lit ''</i>'' @ [opt isWhiteSpace] ]"

text \<open>\<^verbatim>\<open>/.{1,102}/g\<close>\<close>

definition re_chunk :: "piece list list" where
  "re_chunk = [[Piece (\<lambda>c. \<not> isLineTerminator c) 1 (Some 102)]]"

section \<open>Normalising and chunking the subtitle text\<close>

text \<open>
  The two \<^verbatim>\<open>replace\<close> calls that both \<^verbatim>\<open>getMoviesList\<close> variants apply to the downloaded text
  (src/index.js lines 276-280, the chunked variant lines 280-285).
\<close>

definition normalize :: "jsstring \<Rightarrow> jsstring" where
  "normalize downloadData =
     replace_g re_markup [] (replace_g re_newlines (js '' '') downloadData)"

text \<open>The chunked variant, lines 280-286: \<open>None\<close> is the null that \<^verbatim>\<open>match\<close> returns.\<close>

definition subtitleChunks :: "jsstring \<Rightarrow> jsstring list option" where
  "subtitleChunks downloadData = js_match re_chunk (normalize downloadData)"

record chunk_row =
  name :: jsstring
  subtitle :: jsstring
  part :: jsstring

text \<open>The chunked variant, lines 290-294: the \<^verbatim>\<open>map\<close> over the chunks with their index.\<close>

definition movieSubtitles :: "jsstring \<Rightarrow> jsstring list \<Rightarrow> chunk_row list" where
  "movieSubtitles movieName chunks =
     map (\<lambda>(index, chunk).
            \<lparr>name = movieName, subtitle = trim chunk, part = js ''part '' @ dec (index + 1)\<rparr>)
         (enumerate 0 chunks)"

text \<open>The windows of at most \<open>n\<close> code units that chunking is compared with.\<close>

function windows :: "nat \<Rightarrow> 'a list \<Rightarrow> 'a list list" where
  "windows n xs = (if n = 0 \<or> xs = [] then [] else take n xs # windows n (drop n xs))"
  by pat_completeness auto
termination
  by (relation "measure (\<lambda>(n, xs). length xs)") auto

declare windows.simps [simp del]

section \<open>The environment, the file system and the effects\<close>

text \<open>
  Every rejected promise and every thrown exception of the source is an \<open>error\<close>;
  a computation is a function from the world to a result and the world it leaves behind,
  so that what a failed stage did to the disk stays done, as in the source.
\<close>

datatype error =
    TypeError             \<comment> \<open>a property read or a method call on null or undefined\<close>
  | NavigationError       \<comment> \<open>\<^verbatim>\<open>goto\<close> rejects\<close>
  | ElementNotFound       \<comment> \<open>\<^verbatim>\<open>$eval\<close> or \<^verbatim>\<open>click\<close> finds no element for its selector\<close>
  | InvalidArchive        \<comment> \<open>\<^verbatim>\<open>new AdmZip(filePath)\<close>: no file, or not a zip archive\<close>
  | NoSubtitleFile        \<comment> \<open>\<^verbatim>\<open>new Error("No subtitle file found in zip")\<close>\<close>
  | FsError               \<comment> \<open>\<^verbatim>\<open>mkdirSync\<close>, \<^verbatim>\<open>readFileSync\<close> or the extraction cannot use a path\<close>

record entry =
  entryName :: jsstring
  data :: jsstring

datatype node = Dir | File jsstring

text \<open>The effects of a run in their order. Of the console output only the two lines that
  show the loop counters are kept.\<close>

datatype event =
    Navigate jsstring             \<comment> \<open>\<^verbatim>\<open>newPage.goto(url)\<close>\<close>
  | ClickDownload jsstring        \<comment> \<open>\<^verbatim>\<open>newPage.click(".download-subtitle")\<close> on the page of that URL\<close>
  | WaitForTimeout nat            \<comment> \<open>\<^verbatim>\<open>newPage.waitForTimeout(ms)\<close>\<close>
  | ExistsSync jsstring           \<comment> \<open>\<^verbatim>\<open>fs.existsSync(path)\<close>\<close>
  | MkdirSync jsstring            \<comment> \<open>\<^verbatim>\<open>fs.mkdirSync(path)\<close>\<close>
  | OpenZip jsstring              \<comment> \<open>\<^verbatim>\<open>new AdmZip(filePath)\<close>\<close>
  | LogMovie nat                  \<comment> \<open>\<^verbatim>\<open>console.log(`Movie ${movieIndex}:`)\<close>\<close>
  | LogUndefined nat              \<comment> \<open>\<^verbatim>\<open>console.log(`Movie ${i} is undefined.`)\<close>\<close>

record world =
  fs :: "jsstring \<rightharpoonup> node"
  trace :: "event list"

text \<open>One \<^verbatim>\<open>li.media\<close> element of a listing page: the text of its \<^verbatim>\<open>h3.media-heading\<close> and
  the \<^verbatim>\<open>href\<close> of its \<^verbatim>\<open>a[itemprop=url]\<close>, \<open>None\<close> where the element is missing.\<close>

record listing =
  heading :: "jsstring option"
  href :: "jsstring option"

text \<open>One \<^verbatim>\<open>tr\<close> of the subtitle table: the text of its \<^verbatim>\<open>.sub-lang\<close> cell and the
  \<^verbatim>\<open>href\<close> of its \<^verbatim>\<open>.subtitle-download\<close> link.\<close>

record subrow =
  sub_lang :: "jsstring option"
  subtitle_download :: "jsstring option"

text \<open>
  What the run cannot control: the catalog site as the browser shows it, the
  zip library, and the host.
  \<^item> \<open>listings i\<close>: \<^verbatim>\<open>page.goto\<close> of listing page \<open>i\<close>, then its \<^verbatim>\<open>ul.media-list > li.media\<close>;
  \<^item> \<open>details u\<close>: \<^verbatim>\<open>newPage.goto(u)\<close>, then the rows of \<^verbatim>\<open>.table.other-subs tbody\<close>,
    \<open>None\<close> when the page has no such table;
  \<^item> \<open>downloads u\<close>: \<^verbatim>\<open>newPage.goto(u)\<close>, then what the browser has stored in the download
    directory (file name and content) when the wait after the click is over, \<open>None\<close>
    when the page has no \<^verbatim>\<open>.download-subtitle\<close> button;
  \<^item> \<open>unzip\<close>: the entries AdmZip reads from a file's content, \<open>None\<close> when it is no archive;
  \<^item> \<open>cwd\<close>: \<^verbatim>\<open>process.cwd()\<close>; \<open>denied p\<close>: the host refuses to create \<open>p\<close>.
\<close>

record env =
  listings :: "nat \<Rightarrow> error + listing list"
  details :: "jsstring \<Rightarrow> error + subrow list option"
  downloads :: "jsstring \<Rightarrow> error + (jsstring \<times> jsstring) list option"
  unzip :: "jsstring \<Rightarrow> entry list option"
  cwd :: jsstring
  denied :: "jsstring \<Rightarrow> bool"

type_synonym 'a io = "world \<Rightarrow> (error + 'a) \<times> world"

definition io_return :: "'a \<Rightarrow> 'a io" where
  "io_return x w = (Inr x, w)"

definition io_throw :: "error \<Rightarrow> 'a io" where
  "io_throw e w = (Inl e, w)"

text \<open>\<^verbatim>\<open>const x = await m; ...\<close>\<close>

definition io_bind :: "'a io \<Rightarrow> ('a \<Rightarrow> 'b io) \<Rightarrow> 'b io" where
  "io_bind m f w = (case m w of (Inl e, w') \<Rightarrow> (Inl e, w') | (Inr x, w') \<Rightarrow> f x w')"

text \<open>\<^verbatim>\<open>try { m } catch (error) { h }\<close>\<close>

definition io_catch :: "'a io \<Rightarrow> (error \<Rightarrow> 'a io) \<Rightarrow> 'a io" where
  "io_catch m h w = (case m w of (Inl e, w') \<Rightarrow> h e w' | (Inr x, w') \<Rightarrow> (Inr x, w'))"

definition emit :: "event \<Rightarrow> unit io" where
  "emit e w = (Inr (), w\<lparr>trace := trace w @ [e]\<rparr>)"

definition existsSync :: "jsstring \<Rightarrow> bool io" where
  "existsSync p w = (Inr (fs w p \<noteq> None), w\<lparr>trace := trace w @ [ExistsSync p]\<rparr>)"

definition mkdirSync :: "env \<Rightarrow> jsstring \<Rightarrow> unit io" where
  "mkdirSync E p w =
     (if denied E p \<or> fs w p \<noteq> None
      then (Inl FsError, w\<lparr>trace := trace w @ [MkdirSync p]\<rparr>)
      else (Inr (), w\<lparr>fs := (fs w)(p \<mapsto> Dir), trace := trace w @ [MkdirSync p]\<rparr>))"

text \<open>The files a download or an extraction puts into a directory, later ones over
  earlier ones of the same name.\<close>

definition store :: "jsstring \<Rightarrow> (jsstring \<times> jsstring) list \<Rightarrow> (jsstring \<rightharpoonup> node) \<Rightarrow> (jsstring \<rightharpoonup> node)" where
  "store dir files m = fold (\<lambda>(n, c) m. m(path_join dir n \<mapsto> File c)) files m"

section \<open>The functions shared by src/index.js and the chunked variant\<close>

text \<open>\<^verbatim>\<open>getEnglishSubtitleLink\<close>, the loop over the rows (index.js lines 49-59).\<close>

fun findEnglish :: "subrow list \<Rightarrow> error + jsstring option" where
  "findEnglish [] = Inr None"
| "findEnglish (row # rows) =
     (case sub_lang row of
        None \<Rightarrow> Inl ElementNotFound
      | Some textContent \<Rightarrow>
          if trim textContent = js ''English''
          then (case subtitle_download row of
                  None \<Rightarrow> Inl ElementNotFound
                | Some link \<Rightarrow> Inr (Some link))
          else findEnglish rows)"

text \<open>\<^verbatim>\<open>getEnglishSubtitleLink\<close> (index.js lines 38-60): \<^verbatim>\<open>newPage.$\<close> yields null when the
  page has no table, and \<^verbatim>\<open>subtitlesTable.$$\<close> is then a call on null.\<close>

definition getEnglishSubtitleLink :: "env \<Rightarrow> jsstring \<Rightarrow> jsstring option io" where
  "getEnglishSubtitleLink E movieLink =
     io_bind (emit (Navigate movieLink)) (\<lambda>_.
       case details E movieLink of
         Inl e \<Rightarrow> io_throw e
       | Inr None \<Rightarrow> io_throw TypeError
       | Inr (Some subtitlesRows) \<Rightarrow>
           (case findEnglish subtitlesRows of
              Inl e \<Rightarrow> io_throw e
            | Inr link \<Rightarrow> io_return link))"

text \<open>\<^verbatim>\<open>extractSubtitles\<close> (index.js lines 166-203). The promise rejects when the archive
  cannot be opened, when the extraction reports an error, and when no entry name ends
  in \<^verbatim>\<open>.srt\<close>; it resolves to the text of the first such entry. The content of a file
  and the data of an entry are kept as the text they decode to, and an extraction that
  reports an error is taken to have written nothing.\<close>

definition extractSubtitles :: "env \<Rightarrow> jsstring \<Rightarrow> jsstring \<Rightarrow> jsstring io" where
  "extractSubtitles E filePath subtitlesDir =
     io_bind (emit (OpenZip filePath)) (\<lambda>_ w.
       case fs w filePath of
         Some (File content) \<Rightarrow>
           (case unzip E content of
              None \<Rightarrow> (Inl InvalidArchive, w)
            | Some entries \<Rightarrow>
                if list_ex (\<lambda>e. denied E (path_join subtitlesDir (entryName e))) entries
                then (Inl FsError, w)
                else
                  (let w' = w\<lparr>fs := store subtitlesDir
                                        (map (\<lambda>e. (entryName e, data e)) entries) (fs w)\<rparr>
                   in case find (\<lambda>e. endsWith (entryName e) (js ''.srt'')) entries of
                        Some subtitleEntry \<Rightarrow> (Inr (data subtitleEntry), w')
                      | None \<Rightarrow> (Inl NoSubtitleFile, w')))
       | _ \<Rightarrow> (Inl InvalidArchive, w))"

text \<open>\<^verbatim>\<open>downloadSubtitles\<close> (index.js lines 124-156): navigation, the click, the wait of
  10000 ms, then the extraction; every error is caught and becomes null. What the browser
  stores is on the disk when the wait is over; the code does not look at the disk before.\<close>

definition downloadSubtitles :: "env \<Rightarrow> jsstring \<Rightarrow> jsstring \<Rightarrow> jsstring option io" where
  "downloadSubtitles E url subtitlesDir =
     io_catch
       (io_bind (emit (Navigate url)) (\<lambda>_.
          case downloads E url of
            Inl e \<Rightarrow> io_throw e
          | Inr None \<Rightarrow> io_throw ElementNotFound
          | Inr (Some stored) \<Rightarrow>
              io_bind (emit (ClickDownload url)) (\<lambda>_.
              io_bind (\<lambda>w. (Inr (), w\<lparr>fs := store subtitlesDir stored (fs w)\<rparr>)) (\<lambda>_.
              io_bind (emit (WaitForTimeout 10000)) (\<lambda>_.
              let fileName = lastSegment url;
                  filePath = path_join subtitlesDir (fileName @ js ''.zip'')
              in io_bind (extractSubtitles E filePath subtitlesDir) (\<lambda>data.
                 io_return (Some data)))))))
       (\<lambda>error. io_return None)"

text \<open>\<^verbatim>\<open>if (!fs.existsSync(dir)) { fs.mkdirSync(dir); }\<close>\<close>

definition ensureDir :: "env \<Rightarrow> jsstring \<Rightarrow> unit io" where
  "ensureDir E dir =
     io_bind (existsSync dir) (\<lambda>present. if \<not> present then mkdirSync E dir else io_return ())"

text \<open>The folder and the archive path \<^verbatim>\<open>startDownload\<close> derives from a URL:
  \<^verbatim>\<open>subtitles/<fileName>\<close> and \<^verbatim>\<open>subtitles/<fileName>/<fileName>.zip\<close> under the
  working directory.\<close>

definition movieFolder :: "env \<Rightarrow> jsstring \<Rightarrow> jsstring" where
  "movieFolder E url = path_join (path_join (cwd E) (js ''subtitles'')) (lastSegment url)"

definition archivePath :: "env \<Rightarrow> jsstring \<Rightarrow> jsstring" where
  "archivePath E url = path_join (movieFolder E url) (lastSegment url @ js ''.zip'')"

text \<open>\<^verbatim>\<open>startDownload\<close> (index.js lines 70-113), first the block inside its \<^verbatim>\<open>try\<close>. The
  result of \<^verbatim>\<open>downloadSubtitles\<close> is dropped; the archive is extracted again afterwards.\<close>

definition startDownload_try :: "env \<Rightarrow> jsstring \<Rightarrow> jsstring option io" where
  "startDownload_try E url =
     (let subtitlesDir = path_join (cwd E) (js ''subtitles'') in
      io_bind (ensureDir E subtitlesDir) (\<lambda>_.
      let createMovieFolderName = movieFolder E url in
      io_bind (ensureDir E createMovieFolderName) (\<lambda>_.
      let filePath = archivePath E url in
      io_bind (existsSync filePath) (\<lambda>present.
        if \<not> present
        then io_bind (downloadSubtitles E url createMovieFolderName) (\<lambda>_.
             io_bind (extractSubtitles E filePath createMovieFolderName) (\<lambda>data.
             io_return (Some data)))
        else io_bind (extractSubtitles E filePath createMovieFolderName) (\<lambda>data.
             io_return (Some data))))))"

text \<open>\<^verbatim>\<open>try { ... } catch (error) { ...; return null; }\<close>\<close>

definition startDownload :: "env \<Rightarrow> jsstring \<Rightarrow> jsstring option io" where
  "startDownload E url = io_catch (startDownload_try E url) (\<lambda>error. io_return None)"

text \<open>The events on the network, and the network transfers of a run: the clicks on the
  download button.\<close>

fun isNetwork :: "event \<Rightarrow> bool" where
  "isNetwork (Navigate url) = True"
| "isNetwork (ClickDownload url) = True"
| "isNetwork (WaitForTimeout ms) = True"
| "isNetwork _ = False"

fun isTransfer :: "event \<Rightarrow> bool" where
  "isTransfer (ClickDownload url) = True"
| "isTransfer _ = False"

definition transfers :: "world \<Rightarrow> nat" where
  "transfers w = length (filter isTransfer (trace w))"

text \<open>The log lines \<^verbatim>\<open>Movie ${movieIndex}:\<close> of a run.\<close>

fun isLogMovie :: "event \<Rightarrow> bool" where
  "isLogMovie (LogMovie movieIndex) = True"
| "isLogMovie _ = False"

text \<open>\<^verbatim>\<open>movieList[i]\<close>: undefined beyond the last element.\<close>

definition nth_opt :: "'a list \<Rightarrow> nat \<Rightarrow> 'a option" where
  "nth_opt xs i = (if i < length xs then Some (xs ! i) else None)"

text \<open>\<^verbatim>\<open>movie.$eval(selector, ...)\<close>: throws when the element is missing.\<close>

definition eval_sel :: "jsstring option \<Rightarrow> jsstring io" where
  "eval_sel found = (case found of None \<Rightarrow> io_throw ElementNotFound | Some v \<Rightarrow> io_return v)"

section \<open>The chunked variant (src/unnamed/part_000)\<close>

text \<open>\<^verbatim>\<open>const MAX_MOVIES = 2;\<close> (line 7). The loops below take the maximum as a parameter.\<close>

definition MAX_MOVIES_chunked :: nat where
  "MAX_MOVIES_chunked = 2"

text \<open>
  The body of the loop of \<^verbatim>\<open>getMoviesList\<close> (lines 236-298) for a defined \<^verbatim>\<open>movie\<close>:
  \<open>None\<close> is a \<^verbatim>\<open>continue\<close>, \<open>Some rows\<close> the rows pushed before \<^verbatim>\<open>movieIndex++\<close>.
  The tests \<^verbatim>\<open>!movieName\<close>, \<^verbatim>\<open>!movieLink\<close>, \<^verbatim>\<open>!subtitleLink\<close> and \<^verbatim>\<open>!downloadData\<close> hold
  for null and for the empty string. The \<^verbatim>\<open>map\<close> over a null \<^verbatim>\<open>subtitleChunks\<close> is a
  TypeError.
\<close>

definition processMovie :: "env \<Rightarrow> nat \<Rightarrow> listing \<Rightarrow> chunk_row list option io" where
  "processMovie E movieIndex movie =
     io_bind (eval_sel (heading movie)) (\<lambda>movieName.
       if movieName = [] then io_return None else
       io_bind (eval_sel (href movie)) (\<lambda>movieLink.
         if movieLink = [] then io_return None else
         io_bind (getEnglishSubtitleLink E movieLink) (\<lambda>subtitleLink.
           case subtitleLink of
             None \<Rightarrow> io_return None
           | Some url \<Rightarrow>
               if url = [] then io_return None else
               io_bind (startDownload E url) (\<lambda>downloadData.
                 case downloadData of
                   None \<Rightarrow> io_return None
                 | Some text \<Rightarrow>
                     if text = [] then io_return None else
                     io_bind (emit (LogMovie movieIndex)) (\<lambda>_.
                       case subtitleChunks text of
                         None \<Rightarrow> io_throw TypeError
                       | Some chunks \<Rightarrow> io_return (Some (movieSubtitles movieName chunks)))))))"

text \<open>The loop of \<^verbatim>\<open>getMoviesList\<close> (line 225):
  \<^verbatim>\<open>for (let i = 0; i < movieList.length && movieIndex <= MAX_MOVIES; i++)\<close>.\<close>

function getMoviesList_loop ::
  "env \<Rightarrow> nat \<Rightarrow> listing list \<Rightarrow> nat \<Rightarrow> nat \<Rightarrow> chunk_row list \<Rightarrow> chunk_row list io" where
  "getMoviesList_loop E maxMovies movieList i movieIndex movies w =
     (if i < length movieList \<and> movieIndex \<le> maxMovies then
        (case nth_opt movieList i of
           None \<Rightarrow>
             getMoviesList_loop E maxMovies movieList (Suc i) movieIndex movies
               (snd (emit (LogUndefined i) w))
         | Some movie \<Rightarrow>
             (case processMovie E movieIndex movie w of
                (Inl e, w') \<Rightarrow> (Inl e, w')
              | (Inr None, w') \<Rightarrow>
                  getMoviesList_loop E maxMovies movieList (Suc i) movieIndex movies w'
              | (Inr (Some rows), w') \<Rightarrow>
                  getMoviesList_loop E maxMovies movieList (Suc i) (Suc movieIndex)
                    (movies @ rows) w'))
      else (Inr movies, w))"
  by pat_completeness auto
termination
  by (relation "measure (\<lambda>(E, maxMovies, movieList, i, movieIndex, movies, w). length movieList - i)")
    auto

declare getMoviesList_loop.simps [simp del]

text \<open>\<^verbatim>\<open>getMoviesList\<close> (lines 212-302): null for a page without listings.\<close>

definition getMoviesList :: "env \<Rightarrow> nat \<Rightarrow> nat \<Rightarrow> nat \<Rightarrow> chunk_row list option io" where
  "getMoviesList E maxMovies pageNumber startIndex =
     (case listings E pageNumber of
        Inl e \<Rightarrow> io_throw e
      | Inr movieList \<Rightarrow>
          if length movieList = 0 then io_return None
          else io_bind (getMoviesList_loop E maxMovies movieList 0 startIndex []) (\<lambda>movies.
               io_return (Some movies)))"

text \<open>The loop of \<^verbatim>\<open>scrapeMovies\<close> (lines 323-341):
  \<^verbatim>\<open>for (let i = 1; movieCount <= MAX_MOVIES; i++)\<close>. \<^verbatim>\<open>moviesList.length\<close> on null is a
  TypeError.\<close>

function scrapeMovies_loop ::
  "env \<Rightarrow> nat \<Rightarrow> nat \<Rightarrow> nat \<Rightarrow> nat \<Rightarrow> chunk_row list \<Rightarrow> chunk_row list io" where
  "scrapeMovies_loop E maxMovies i startIndex movieCount movies w =
     (if movieCount \<le> maxMovies then
        (case getMoviesList E maxMovies i startIndex w of
           (Inl e, w') \<Rightarrow> (Inl e, w')
         | (Inr None, w') \<Rightarrow> (Inl TypeError, w')
         | (Inr (Some moviesList), w') \<Rightarrow>
             if length moviesList = 0 then (Inr movies, w')
             else scrapeMovies_loop E maxMovies (Suc i) (startIndex + length moviesList)
                    (movieCount + length moviesList) (movies @ moviesList) w')
      else (Inr movies, w))"
  by pat_completeness auto
termination
proof (relation "measure (\<lambda>(E, maxMovies, i, startIndex, movieCount, movies, w).
                  Suc maxMovies - movieCount)", goal_cases)
  case 1
  show ?case by simp
next
  case (2 E maxMovies i startIndex movieCount movies w r w' found moviesList)
  then have "0 < length moviesList" by simp
  with 2(1) have "Suc maxMovies - (movieCount + length moviesList) < Suc maxMovies - movieCount"
    by arith
  then show ?case by simp
qed

declare scrapeMovies_loop.simps [simp del]

text \<open>\<^verbatim>\<open>scrapeMovies\<close> (lines 307-353): the result is the list handed to
  \<^verbatim>\<open>writeMoviesToCsv\<close>; an error means the promise was rejected before the file was written.\<close>

definition scrapeMovies :: "env \<Rightarrow> nat \<Rightarrow> chunk_row list io" where
  "scrapeMovies E maxMovies = scrapeMovies_loop E maxMovies 1 1 0 []"

section \<open>The per-listing variant (src/index.js)\<close>

text \<open>\<^verbatim>\<open>const MAX_MOVIES = 10;\<close> (index.js line 7).\<close>

definition MAX_MOVIES_index :: nat where
  "MAX_MOVIES_index = 10"

record movie_row =
  movie_id :: nat
  movie_name :: jsstring
  movie_link :: jsstring
  movie_subtitleLink :: jsstring
  movie_subtitle :: jsstring

text \<open>
  The body of the loop of \<^verbatim>\<open>getMoviesList\<close> (index.js lines 244-284) for a defined
  \<^verbatim>\<open>movie\<close>. The download data is not tested before \<^verbatim>\<open>downloadData.replace\<close>, which is a
  TypeError on null; the index is logged before that.
\<close>

definition processMovie_index :: "env \<Rightarrow> nat \<Rightarrow> listing \<Rightarrow> movie_row option io" where
  "processMovie_index E movieIndex movie =
     io_bind (eval_sel (heading movie)) (\<lambda>movieName.
     io_bind (eval_sel (href movie)) (\<lambda>movieLink.
       if movieLink = [] then io_return None else
       io_bind (getEnglishSubtitleLink E movieLink) (\<lambda>subtitleLink.
         case subtitleLink of
           None \<Rightarrow> io_return None
         | Some url \<Rightarrow>
             io_bind (startDownload E url) (\<lambda>downloadData.
             io_bind (emit (LogMovie movieIndex)) (\<lambda>_.
               case downloadData of
                 None \<Rightarrow> io_throw TypeError
               | Some text \<Rightarrow>
                   io_return (Some \<lparr>movie_id = movieIndex, movie_name = movieName,
                                     movie_link = movieLink, movie_subtitleLink = url,
                                     movie_subtitle = normalize text\<rparr>))))))"

text \<open>The loop of \<^verbatim>\<open>getMoviesList\<close> (index.js line 235):
  \<^verbatim>\<open>for (let i = 0; i <= movieList.length && movieIndex <= MAX_MOVIES; i++)\<close>.\<close>

function getMoviesList_loop_index ::
  "env \<Rightarrow> nat \<Rightarrow> listing list \<Rightarrow> nat \<Rightarrow> nat \<Rightarrow> movie_row list \<Rightarrow> movie_row list io" where
  "getMoviesList_loop_index E maxMovies movieList i movieIndex movies w =
     (if i \<le> length movieList \<and> movieIndex \<le> maxMovies then
        (case nth_opt movieList i of
           None \<Rightarrow>
             getMoviesList_loop_index E maxMovies movieList (Suc i) movieIndex movies
               (snd (emit (LogUndefined i) w))
         | Some movie \<Rightarrow>
             (case processMovie_index E movieIndex movie w of
                (Inl e, w') \<Rightarrow> (Inl e, w')
              | (Inr None, w') \<Rightarrow>
                  getMoviesList_loop_index E maxMovies movieList (Suc i) movieIndex movies w'
              | (Inr (Some row), w') \<Rightarrow>
                  getMoviesList_loop_index E maxMovies movieList (Suc i) (Suc movieIndex)
                    (movies @ [row]) w'))
      else (Inr movies, w))"
  by pat_completeness auto
termination
  by (relation "measure (\<lambda>(E, maxMovies, movieList, i, movieIndex, movies, w).
                  Suc (length movieList) - i)")
    auto

declare getMoviesList_loop_index.simps [simp del]

text \<open>\<^verbatim>\<open>getMoviesList\<close> (index.js lines 213-288).\<close>

definition getMoviesList_index :: "env \<Rightarrow> nat \<Rightarrow> nat \<Rightarrow> nat \<Rightarrow> movie_row list option io" where
  "getMoviesList_index E maxMovies pageNumber startIndex =
     (case listings E pageNumber of
        Inl e \<Rightarrow> io_throw e
      | Inr movieList \<Rightarrow>
          if length movieList = 0 then io_return None
          else io_bind (getMoviesList_loop_index E maxMovies movieList 0 startIndex [])
                 (\<lambda>movies. io_return (Some movies)))"

text \<open>The loop of \<^verbatim>\<open>scrapeMovies\<close> (index.js lines 309-325).\<close>

function scrapeMovies_loop_index ::
  "env \<Rightarrow> nat \<Rightarrow> nat \<Rightarrow> nat \<Rightarrow> nat \<Rightarrow> movie_row list \<Rightarrow> movie_row list io" where
  "scrapeMovies_loop_index E maxMovies i startIndex movieCount movies w =
     (if movieCount \<le> maxMovies then
        (case getMoviesList_index E maxMovies i startIndex w of
           (Inl e, w') \<Rightarrow> (Inl e, w')
         | (Inr None, w') \<Rightarrow> (Inl TypeError, w')
         | (Inr (Some moviesList), w') \<Rightarrow>
             if length moviesList = 0 then (Inr movies, w')
             else scrapeMovies_loop_index E maxMovies (Suc i) (startIndex + length moviesList)
                    (movieCount + length moviesList) (movies @ moviesList) w')
      else (Inr movies, w))"
  by pat_completeness auto
termination
proof (relation "measure (\<lambda>(E, maxMovies, i, startIndex, movieCount, movies, w).
                  Suc maxMovies - movieCount)", goal_cases)
  case 1
  show ?case by simp
next
  case (2 E maxMovies i startIndex movieCount movies w r w' found moviesList)
  then have "0 < length moviesList" by simp
  with 2(1) have "Suc maxMovies - (movieCount + length moviesList) < Suc maxMovies - movieCount"
    by arith
  then show ?case by simp
qed

declare scrapeMovies_loop_index.simps [simp del]

definition scrapeMovies_index :: "env \<Rightarrow> nat \<Rightarrow> movie_row list io" where
  "scrapeMovies_index E maxMovies = scrapeMovies_loop_index E maxMovies 1 1 0 []"

section \<open>The download functions of the earliest variant (src/unnamed/part_001)\<close>

text \<open>
  \<^verbatim>\<open>extractSubtitles\<close> (part_001 lines 131-156): nothing is caught. \<^verbatim>\<open>subtitleEntry\<close> is the
  name of the first entry that ends in \<^verbatim>\<open>.srt\<close>, or null, and \<^verbatim>\<open>path.basename(null)\<close> is a
  TypeError. The text is read back from the extracted file and returned through
  \<^verbatim>\<open>JSON.stringify\<close>, a parameter here.
\<close>

definition extractSubtitles_p1 ::
  "(jsstring \<Rightarrow> jsstring) \<Rightarrow> env \<Rightarrow> jsstring \<Rightarrow> jsstring \<Rightarrow> jsstring io" where
  "extractSubtitles_p1 stringify E filePath subtitlesDir =
     io_bind (emit (OpenZip filePath)) (\<lambda>_ w.
       case fs w filePath of
         Some (File content) \<Rightarrow>
           (case unzip E content of
              None \<Rightarrow> (Inl InvalidArchive, w)
            | Some entries \<Rightarrow>
                if list_ex (\<lambda>e. denied E (path_join subtitlesDir (entryName e))) entries
                then (Inl FsError, w)
                else
                  (let w' = w\<lparr>fs := store subtitlesDir
                                        (map (\<lambda>e. (entryName e, data e)) entries) (fs w)\<rparr>
                   in case find (\<lambda>n. endsWith n (js ''.srt'')) (map entryName entries) of
                        None \<Rightarrow> (Inl TypeError, w')
                      | Some subtitleEntry \<Rightarrow>
                          (case fs w' (path_join subtitlesDir (lastSegment subtitleEntry)) of
                             Some (File text) \<Rightarrow> (Inr (stringify text), w')
                           | _ \<Rightarrow> (Inl FsError, w'))))
       | _ \<Rightarrow> (Inl InvalidArchive, w))"

text \<open>\<^verbatim>\<open>downloadSubtitles\<close> (part_001 lines 101-121).\<close>

definition downloadSubtitles_p1 ::
  "(jsstring \<Rightarrow> jsstring) \<Rightarrow> env \<Rightarrow> jsstring \<Rightarrow> jsstring \<Rightarrow> jsstring io" where
  "downloadSubtitles_p1 stringify E url subtitlesDir =
     io_bind (emit (Navigate url)) (\<lambda>_.
       case downloads E url of
         Inl e \<Rightarrow> io_throw e
       | Inr None \<Rightarrow> io_throw ElementNotFound
       | Inr (Some stored) \<Rightarrow>
           io_bind (emit (ClickDownload url)) (\<lambda>_.
           io_bind (\<lambda>w. (Inr (), w\<lparr>fs := store subtitlesDir stored (fs w)\<rparr>)) (\<lambda>_.
           io_bind (emit (WaitForTimeout 10000)) (\<lambda>_.
           let fileName = lastSegment url;
               filePath = path_join subtitlesDir (fileName @ js ''.zip'')
           in extractSubtitles_p1 stringify E filePath subtitlesDir))))"

text \<open>\<^verbatim>\<open>startDownload\<close> (part_001 lines 61-90): no \<^verbatim>\<open>try\<close>; after a download the function
  returns nothing (\<open>None\<close> is that undefined).\<close>

definition startDownload_p1 ::
  "(jsstring \<Rightarrow> jsstring) \<Rightarrow> env \<Rightarrow> jsstring \<Rightarrow> jsstring option io" where
  "startDownload_p1 stringify E url =
     (let subtitlesDir = path_join (cwd E) (js ''subtitles'') in
      io_bind (ensureDir E subtitlesDir) (\<lambda>_.
      let createMovieFolderName = movieFolder E url in
      io_bind (ensureDir E createMovieFolderName) (\<lambda>_.
      let filePath = archivePath E url in
      io_bind (existsSync filePath) (\<lambda>present.
        if \<not> present
        then io_bind (downloadSubtitles_p1 stringify E url createMovieFolderName) (\<lambda>_.
             io_return None)
        else io_bind (extractSubtitles_p1 stringify E filePath createMovieFolderName) (\<lambda>data.
             io_return (Some data))))))"

section \<open>A small catalog to run the pipeline on\<close>

text \<open>
  Page 1 lists movie A, page 2 movie B, every later page one listing without a
  name. The detail page of A offers French and English subtitles, that of B English
  ones. The archive of A holds \<^verbatim>\<open>info.nfo\<close>, \<^verbatim>\<open>movie.srt\<close> (with the given text) and
  \<^verbatim>\<open>readme.txt\<close>; the archive of B holds \<^verbatim>\<open>b.srt\<close>. The disk is empty at first.
\<close>

definition disk0 :: world where
  "disk0 = \<lparr>fs = Map.empty, trace = []\<rparr>"

definition movieA :: listing where
  "movieA = \<lparr>heading = Some (js ''A''), href = Some (js ''m/a'')\<rparr>"

definition movieB :: listing where
  "movieB = \<lparr>heading = Some (js ''B''), href = Some (js ''m/b'')\<rparr>"

definition noName :: listing where
  "noName = \<lparr>heading = Some [], href = Some (js ''m/c'')\<rparr>"

definition english :: "jsstring \<Rightarrow> subrow" where
  "english link = \<lparr>sub_lang = Some (js '' English ''), subtitle_download = Some link\<rparr>"

definition french :: "jsstring \<Rightarrow> subrow" where
  "french link = \<lparr>sub_lang = Some (js ''French''), subtitle_download = Some link\<rparr>"

definition catalog :: "jsstring \<Rightarrow> env" where
  "catalog textA =
     \<lparr>listings = (\<lambda>i. if i = 1 then Inr [movieA] else if i = 2 then Inr [movieB]
                       else Inr [noName]),
      details = (\<lambda>u. if u = js ''m/a'' then Inr (Some [french (js ''s/f''), english (js ''s/a'')])
                      else if u = js ''m/b'' then Inr (Some [english (js ''s/b'')])
                      else Inl NavigationError),
      downloads = (\<lambda>u. if u = js ''s/a'' then Inr (Some [(js ''a.zip'', js ''PKA'')])
                        else if u = js ''s/b'' then Inr (Some [(js ''b.zip'', js ''PKB'')])
                        else Inl NavigationError),
      unzip = (\<lambda>c. if c = js ''PKA''
                    then Some [\<lparr>entryName = js ''info.nfo'', data = js ''x''\<rparr>,
                               \<lparr>entryName = js ''movie.srt'', data = textA\<rparr>,
                               \<lparr>entryName = js ''readme.txt'', data = js ''y''\<rparr>]
                    else if c = js ''PKB''
                    then Some [\<lparr>entryName = js ''b.srt'', data = js ''Bye''\<rparr>]
                    else None),
      cwd = js ''/w'',
      denied = (\<lambda>p. False)\<rparr>"

text \<open>103 times the letter A: a text of two chunks.\<close>

definition longText :: jsstring where
  "longText = replicate 103 0x41"

text \<open>The catalog with every detail page unreachable.\<close>

definition siteDetailDown :: env where
  "siteDetailDown = (catalog (js ''Hi''))\<lparr>details := (\<lambda>u. Inl NavigationError)\<rparr>"

text \<open>The catalog with A and B on every page and the download page of A unreachable.\<close>

definition siteDownloadDown :: env where
  "siteDownloadDown =
     (catalog (js ''Hi''))
       \<lparr>listings := (\<lambda>i. Inr [movieA, movieB]),
        downloads := (\<lambda>u. if u = js ''s/b'' then Inr (Some [(js ''b.zip'', js ''PKB'')])
                            else Inl NavigationError)\<rparr>"

text \<open>The catalog whose detail pages have no subtitle table.\<close>

definition siteNoTable :: env where
  "siteNoTable = (catalog (js ''Hi''))\<lparr>details := (\<lambda>u. Inr None)\<rparr>"

text \<open>The catalog whose archives hold \<^verbatim>\<open>info.nfo\<close> only.\<close>

definition siteNoSrt :: env where
  "siteNoSrt =
     (catalog (js ''Hi''))
       \<lparr>unzip := (\<lambda>c. Some [\<lparr>entryName = js ''info.nfo'', data = js ''x''\<rparr>])\<rparr>"

text \<open>The catalog that ends after page 1: every later page has no listing.\<close>

definition siteOnePage :: env where
  "siteOnePage =
     (catalog (js ''Hi''))\<lparr>listings := (\<lambda>i. if i = 1 then Inr [movieA] else Inr [])\<rparr>"

text \<open>The catalog whose downloads have stored nothing when the wait is over.\<close>

definition siteSlow :: env where
  "siteSlow = (catalog (js ''Hi''))\<lparr>downloads := (\<lambda>u. Inr (Some []))\<rparr>"

text \<open>The catalog with A and B on every page, the subtitle file of A empty.\<close>

definition siteEmptySrt :: env where
  "siteEmptySrt = (catalog [])\<lparr>listings := (\<lambda>i. Inr [movieA, movieB])\<rparr>"

text \<open>The catalog as it is (A on page 1, B on page 2), the download page of A
  unreachable.\<close>

definition siteADown :: env where
  "siteADown =
     (catalog (js ''Hi''))
       \<lparr>downloads := (\<lambda>u. if u = js ''s/b'' then Inr (Some [(js ''b.zip'', js ''PKB'')])
                            else Inl NavigationError)\<rparr>"

text \<open>A movie C whose detail page offers French subtitles only, and the catalog with C
  before A on page 1, C before B on page 2 and C alone on every later page.\<close>

definition movieC :: listing where
  "movieC = \<lparr>heading = Some (js ''C''), href = Some (js ''m/c'')\<rparr>"

definition siteSkips :: "jsstring \<Rightarrow> env" where
  "siteSkips textA =
     (catalog textA)
       \<lparr>listings := (\<lambda>i. if i = 1 then Inr [movieC, movieA]
                           else if i = 2 then Inr [movieC, movieB] else Inr [movieC]),
        details := (\<lambda>u. if u = js ''m/c'' then Inr (Some [french (js ''s/f'')])
                          else details (catalog textA) u)\<rparr>"

section \<open>Evaluation of closed terms\<close>

lemmas string_defs = js_def trim_def endsWith_def lastSegment_def path_join_def path_normalize_def
  isWhiteSpace_def isDigit_def isLineTerminator_def
lemmas regex_defs = match_alt_def js_match_def one_def opt_def plus_def lit_def
  re_newlines_def re_time_def re_markup_def re_chunk_def normalize_def subtitleChunks_def
  movieSubtitles_def Let_def
lemmas io_defs = io_return_def io_throw_def io_bind_def io_catch_def emit_def existsSync_def
  mkdirSync_def store_def ensureDir_def eval_sel_def nth_opt_def
lemmas stage_defs = getEnglishSubtitleLink_def extractSubtitles_def downloadSubtitles_def
  movieFolder_def archivePath_def startDownload_try_def startDownload_def transfers_def
lemmas chunked_defs = processMovie_def getMoviesList_loop.simps getMoviesList_def
  scrapeMovies_loop.simps scrapeMovies_def
lemmas index_defs = processMovie_index_def getMoviesList_loop_index.simps
  getMoviesList_index_def scrapeMovies_loop_index.simps scrapeMovies_index_def
lemmas p1_defs = extractSubtitles_p1_def downloadSubtitles_p1_def startDownload_p1_def
lemmas catalog_defs = disk0_def movieA_def movieB_def noName_def english_def french_def
  catalog_def siteDetailDown_def siteDownloadDown_def siteNoTable_def siteNoSrt_def
  siteOnePage_def siteSlow_def siteEmptySrt_def siteADown_def movieC_def siteSkips_def
  MAX_MOVIES_chunked_def MAX_MOVIES_index_def
lemmas run_defs = catalog_defs string_defs regex_defs io_defs stage_defs dec.simps
  enumerate_eq_zip

text \<open>\<^verbatim>\<open>path.join\<close> on the paths of \<^verbatim>\<open>startDownload\<close>, also for a URL whose last segment
  is \<^verbatim>\<open>..\<close>: the folder is then the working directory itself.\<close>

lemma path_join_examples:
  "path_join (js ''/w'') (js ''subtitles'') = js ''/w/subtitles'' \<and>
   path_join (js ''/w/subtitles'') (js ''a'') = js ''/w/subtitles/a'' \<and>
   path_join (js ''/w/subtitles'') [] = js ''/w/subtitles'' \<and>
   path_join (js ''/w/subtitles'') (js ''.'') = js ''/w/subtitles'' \<and>
   path_join (js ''/w/subtitles'') (js ''..'') = js ''/w'' \<and>
   path_join (js ''a//b/'') (js ''../../../c'') = js ''../c'' \<and>
   path_join [] [] = js ''.'' \<and>
   movieFolder (catalog []) (js ''x/..'') = js ''/w'' \<and>
   archivePath (catalog []) (js ''x/..'') = js ''/w/...zip''"
  by (simp add: catalog_def string_defs movieFolder_def archivePath_def)

section \<open>Normalising and chunking: the shape of the chunk sequence\<close>

lemma first_some_SomeD: "first_some f xs = Some y \<Longrightarrow> \<exists>x\<in>set xs. f x = Some y"
  by (induction xs) (auto split: option.splits)

lemma match_seq_suffix: "match_seq ps s = Some r \<Longrightarrow> \<exists>k. r = drop k s"
proof (induction ps arbitrary: s r)
  case Nil
  then show ?case by (auto intro: exI[of _ 0])
next
  case (Cons a ps)
  obtain p lo hi where a: "a = Piece p lo hi" by (cases a)
  from Cons.prems a obtain k where "match_seq ps (drop k s) = Some r"
    by (auto simp: Let_def dest!: first_some_SomeD)
  from Cons.IH[OF this] obtain j where "r = drop j (drop k s)" by blast
  then show ?case by (auto intro: exI[of _ "j + k"])
qed

lemma match_alt_suffix: "match_alt re s = Some r \<Longrightarrow> \<exists>k. r = drop k s"
  unfolding match_alt_def by (auto dest!: first_some_SomeD match_seq_suffix)

lemma first_some_nil_piece: "first_some (match_seq []) xs = (case xs of [] \<Rightarrow> None | x # _ \<Rightarrow> Some x)"
  by (cases xs) simp_all

lemma match_seq_single:
  "match_seq [Piece p lo hi] s =
     (let avail = length (takeWhile p s);
          most = (case hi of None \<Rightarrow> avail | Some h \<Rightarrow> min h avail)
      in if lo \<le> most then Some (drop most s) else None)"
  by (simp add: Let_def first_some_nil_piece)

lemma set_replace_g: "set (replace_g re rep s) \<subseteq> set s \<union> set rep"
proof (induction re rep s rule: replace_g.induct)
  case (1 re rep)
  then show ?case by (auto split: option.splits)
next
  case (2 re rep c cs)
  show ?case
  proof (cases "match_alt re (c # cs)")
    case None
    with 2 show ?thesis by auto
  next
    case (Some r)
    then obtain k where r: "r = drop k (c # cs)" by (auto dest: match_alt_suffix)
    have "set r \<subseteq> set (c # cs)" unfolding r by (rule set_drop_subset)
    with 2 Some show ?thesis by (auto split: if_splits)
  qed
qed

lemma replace_newlines_none:
  "c \<in> set (replace_g re_newlines (js '' '') s) \<Longrightarrow> c \<noteq> 0x0A \<and> c \<noteq> 0x0D"
proof (induction re_newlines "js '' ''" s rule: replace_g.induct)
  case 1
  then show ?case
    by (simp add: re_newlines_def plus_def match_alt_def js_def)
next
  case (2 d ds)
  show ?case
  proof (cases "match_alt re_newlines (d # ds)")
    case None
    then have "d \<noteq> 0x0A \<and> d \<noteq> 0x0D"
      by (auto simp: re_newlines_def plus_def match_alt_def Let_def split: if_splits)
    with 2 None show ?thesis by auto
  next
    case (Some r)
    then have "length r < length (d # ds)"
      by (auto simp: re_newlines_def plus_def match_alt_def Let_def split: if_splits)
    with 2 Some show ?thesis by (auto simp: js_def)
  qed
qed

lemma normalize_no_newline:
  "c \<in> set (normalize d) \<Longrightarrow> c \<noteq> 0x0A \<and> c \<noteq> 0x0D"
proof -
  assume "c \<in> set (normalize d)"
  then have "c \<in> set (replace_g re_newlines (js '' '') d)"
    using set_replace_g[of re_markup "[]" "replace_g re_newlines (js '' '') d"]
    by (auto simp: normalize_def)
  then show ?thesis by (rule replace_newlines_none)
qed

lemma windows_Nil [simp]: "windows n [] = []"
  by (simp add: windows.simps)

lemma windows_Cons: "0 < n \<Longrightarrow> xs \<noteq> [] \<Longrightarrow> windows n xs = take n xs # windows n (drop n xs)"
  by (subst windows.simps) simp

lemma concat_windows: "0 < n \<Longrightarrow> concat (windows n xs) = xs"
proof (induction n xs rule: windows.induct)
  case (1 n xs)
  then show ?case by (cases "xs = []") (simp_all add: windows_Cons)
qed

lemma length_windows: "0 < n \<Longrightarrow> length (windows n xs) = (length xs + n - 1) div n"
proof (induction n xs rule: windows.induct)
  case (1 n xs)
  show ?case
  proof (cases "xs = []")
    case True
    with 1 show ?thesis by simp
  next
    case False
    then have pos: "0 < length xs" by simp
    have split: "length xs + n - 1 = n + (length xs - 1)"
      using pos by arith
    have step: "(length xs + n - 1) div n = Suc ((length xs - 1) div n)"
      unfolding split using 1(2) by (simp add: div_add_self1)
    have ih: "length (windows n (drop n xs)) = (length xs - n + n - 1) div n"
      using 1 False by simp
    show ?thesis
    proof (cases "length xs \<le> n")
      case True
      then have "length xs - 1 < n"
        using pos by arith
      then have "(length xs - 1) div n = 0"
        by simp
      with step True False 1(2) show ?thesis by (simp add: windows_Cons)
    next
      case F: False
      then have "length xs - n + n - 1 = length xs - 1" by arith
      with ih step False 1(2) show ?thesis by (simp add: windows_Cons)
    qed
  qed
qed

lemma windows_bounded: "w \<in> set (windows n xs) \<Longrightarrow> length w \<le> n \<and> w \<noteq> []"
proof (induction n xs rule: windows.induct)
  case (1 n xs)
  then show ?case
    by (cases "n = 0 \<or> xs = []") (auto simp: windows.simps[of n xs])
qed

lemma match_alt_single: "match_alt [ps] s = match_seq ps s"
  by (cases "match_seq ps s") (simp_all add: match_alt_def)

lemma match_chunk:
  assumes "list_all (\<lambda>c. \<not> isLineTerminator c) s"
  shows "match_alt re_chunk s = (if s = [] then None else Some (drop 102 s))"
proof -
  let ?dot = "\<lambda>c. \<not> isLineTerminator c"
  have "takeWhile ?dot s = s"
    using assms by (simp add: list_all_iff)
  then have avail: "length (takeWhile ?dot s) = length s"
    by (rule arg_cong)
  have dr: "drop (min 102 (length s)) s = drop 102 s"
    by (cases "102 \<le> length s") (simp_all add: min_def)
  have le: "(1 \<le> min 102 (length s)) = (s \<noteq> [])"
    by (cases s) simp_all
  have "match_alt re_chunk s = match_seq [Piece ?dot 1 (Some 102)] s"
    by (simp only: re_chunk_def match_alt_single)
  also have "\<dots> = (if 1 \<le> min 102 (length s) then Some (drop (min 102 (length s)) s) else None)"
    by (simp only: match_seq_single avail Let_def option.case)
  also have "\<dots> = (if s = [] then None else Some (drop 102 s))"
    by (simp only: le dr if_not_P if_P split: if_splits) auto
  finally show ?thesis .
qed

lemma matches_chunk:
  "list_all (\<lambda>c. \<not> isLineTerminator c) s \<Longrightarrow> matches_g re_chunk s = windows 102 s"
proof (induction re_chunk s rule: matches_g.induct)
  case 1
  then show ?case by (simp add: match_chunk)
next
  case (2 c cs)
  let ?s = "c # cs"
  have m: "match_alt re_chunk ?s = Some (drop 102 ?s)"
    using match_chunk[OF 2(4)] by simp
  have shorter: "length (drop 102 ?s) < length ?s" by simp
  have rest: "list_all (\<lambda>c. \<not> isLineTerminator c) (drop 102 ?s)"
    using 2(4) by (auto simp: list_all_iff dest: in_set_dropD)
  have ih: "matches_g re_chunk (drop 102 ?s) = windows 102 (drop 102 ?s)"
    using 2(2)[OF m shorter rest] .
  have tk: "take (length ?s - length (drop 102 ?s)) ?s = take 102 ?s"
    by (cases "102 \<le> length ?s") simp_all
  have "matches_g re_chunk ?s = take 102 ?s # matches_g re_chunk (drop 102 ?s)"
    using m shorter tk by (simp del: drop_Cons_numeral take_Cons_numeral length_drop)
  also have "\<dots> = windows 102 ?s"
    using ih by (simp add: windows_Cons del: drop_Cons_numeral take_Cons_numeral)
  finally show ?case .
qed

lemma length_trim: "length (trim s) \<le> length s"
proof -
  have "length (trim s) \<le> length (dropWhile isWhiteSpace s)"
    unfolding trim_def using length_dropWhile_le[of isWhiteSpace "rev (dropWhile isWhiteSpace s)"]
    by simp
  also have "\<dots> \<le> length s" by (rule length_dropWhile_le)
  finally show ?thesis .
qed

lemma subtitle_rows:
  "map subtitle (map (\<lambda>(index, chunk).
      \<lparr>name = n, subtitle = trim chunk, part = js ''part '' @ dec (index + 1)\<rparr>) (enumerate k chunks))
   = map trim chunks"
  by (induction chunks arbitrary: k) simp_all

lemma part_rows:
  "map part (map (\<lambda>(index, chunk).
      \<lparr>name = n, subtitle = trim chunk, part = js ''part '' @ dec (index + 1)\<rparr>) (enumerate k chunks))
   = map (\<lambda>j. js ''part '' @ dec j) [Suc k ..< Suc k + length chunks]"
proof (induction chunks arbitrary: k)
  case Nil
  then show ?case by simp
next
  case (Cons c cs)
  have "Suc k < Suc k + length (c # cs)" by simp
  from upt_conv_Cons[OF this]
  have "[Suc k ..< Suc k + length (c # cs)] = Suc k # [Suc (Suc k) ..< Suc (Suc k) + length cs]"
    by simp
  with Cons show ?case by simp
qed

lemma match_markup_plain:
  assumes "\<not> isDigit c" "\<not> isWhiteSpace c" "c \<noteq> 0x3C"
  shows "match_alt re_markup (c # cs) = None"
  using assms
  by (simp add: match_alt_def re_markup_def re_time_def lit_def one_def opt_def plus_def Let_def)

lemma match_newlines_plain:
  assumes "\<not> isWhiteSpace c"
  shows "match_alt re_newlines (c # cs) = None"
proof -
  from assms have "c \<noteq> 0x0A \<and> c \<noteq> 0x0D" by (auto simp: isWhiteSpace_def)
  then show ?thesis
    by (simp add: match_alt_def re_newlines_def plus_def Let_def)
qed

lemma match_empty_input:
  "match_alt re_newlines [] = None" "match_alt re_markup [] = None"
  by (simp_all add: match_alt_def re_newlines_def re_markup_def re_time_def lit_def one_def
        opt_def plus_def Let_def)

lemma replace_plain:
  assumes "list_all (\<lambda>c. \<not> isDigit c \<and> \<not> isWhiteSpace c \<and> c \<noteq> 0x3C) s"
  shows "replace_g re_newlines rep s = s" and "replace_g re_markup rep s = s"
  using assms
  by (induction s) (simp_all add: match_empty_input match_newlines_plain match_markup_plain)

lemma normalize_plain:
  "list_all (\<lambda>c. \<not> isDigit c \<and> \<not> isWhiteSpace c \<and> c \<noteq> 0x3C) s \<Longrightarrow> normalize s = s"
  by (simp add: normalize_def replace_plain)

text \<open>Two texts as a check of the expressions: a cue with its number, time line and
  italics, and the 205 letters of the specification's example.\<close>

lemma srt_example:
  "normalize (js ''7'' @ [0x0D, 0x0A] @ js ''00:00:01,000 --> 00:00:02,500'' @ [0x0D, 0x0A] @
              js ''<i>Hi</i>'' @ [0x0A] @ js ''you'' @ [0x0A, 0x0A]) = js ''Hiyou ''"
  by (simp add: string_defs regex_defs)

lemma spec_example_205:
  "map length (the (subtitleChunks (replicate 205 0x41))) = [102, 102, 1] \<and>
   map part (movieSubtitles n (the (subtitleChunks (replicate 205 0x41)))) =
     [js ''part 1'', js ''part 2'', js ''part 3'']"
proof -
  have plain: "list_all (\<lambda>c. \<not> isDigit c \<and> \<not> isWhiteSpace c \<and> c \<noteq> 0x3C) (replicate 205 0x41)"
    by (simp add: list_all_iff isDigit_def isWhiteSpace_def)
  have lt: "list_all (\<lambda>c. \<not> isLineTerminator c) (replicate 205 0x41)"
    by (simp add: list_all_iff isLineTerminator_def)
  have "windows 102 (replicate 205 (0x41 :: jschar)) = [replicate 102 0x41, replicate 102 0x41, [0x41]]"
    by (simp add: windows_Cons)
  with matches_chunk[OF lt]
  have "subtitleChunks (replicate 205 0x41) = Some [replicate 102 0x41, replicate 102 0x41, [0x41]]"
    by (simp add: subtitleChunks_def js_match_def normalize_plain[OF plain])
  then show ?thesis
    by (simp add: movieSubtitles_def enumerate_eq_zip dec.simps js_def)
qed

text \<open>
  Claim C1, as the code has it. For every raw subtitle text whose normalized text is not
  empty and holds no line separator U+2028 or U+2029 (line feeds and carriage returns are
  gone after normalization), \<^verbatim>\<open>match\<close> yields the consecutive windows of 102 code units of
  the normalized text: \<open>ceil(L/102)\<close> of them for length \<open>L\<close>, each of length at most
  102, and their concatenation is the normalized text. The rows carry the trimmed
  windows, each of length at most 102, numbered \<^verbatim>\<open>part 1\<close>, \<^verbatim>\<open>part 2\<close>, ... in order.
\<close>

theorem chunks_of_normalized_text:
  assumes nonempty: "normalize d \<noteq> []"
    and nosep: "list_all (\<lambda>c. c \<noteq> 0x2028 \<and> c \<noteq> 0x2029) (normalize d)"
  shows "\<exists>chunks.
           subtitleChunks d = Some chunks \<and>
           chunks = windows 102 (normalize d) \<and>
           length chunks = (length (normalize d) + 101) div 102 \<and>
           list_all (\<lambda>c. length c \<le> 102) chunks \<and>
           concat chunks = normalize d \<and>
           map subtitle (movieSubtitles n chunks) = map trim chunks \<and>
           list_all (\<lambda>r. length (subtitle r) \<le> 102) (movieSubtitles n chunks) \<and>
           map part (movieSubtitles n chunks) =
             map (\<lambda>k. js ''part '' @ dec k) [1 ..< Suc (length chunks)]"
proof -
  let ?t = "normalize d"
  let ?w = "windows 102 ?t"
  have lt: "list_all (\<lambda>c. \<not> isLineTerminator c) ?t"
    using nosep normalize_no_newline[of _ d]
    by (auto simp: list_all_iff isLineTerminator_def)
  have m: "matches_g re_chunk ?t = ?w" by (rule matches_chunk[OF lt])
  have ne: "?w \<noteq> []" using nonempty by (simp add: windows_Cons)
  have 1: "subtitleChunks d = Some ?w"
    using m ne by (simp add: subtitleChunks_def js_match_def split: list.splits)
  have 2: "length ?w = (length ?t + 101) div 102"
    using length_windows[of 102 ?t] by simp
  have 3: "list_all (\<lambda>c. length c \<le> 102) ?w"
    using windows_bounded[of _ 102 ?t] by (auto simp: list_all_iff)
  have 4: "concat ?w = ?t" by (simp add: concat_windows)
  have 5: "map subtitle (movieSubtitles n ?w) = map trim ?w"
    unfolding movieSubtitles_def by (rule subtitle_rows)
  have 6: "list_all (\<lambda>r. length (subtitle r) \<le> 102) (movieSubtitles n ?w)"
  proof -
    have "list_all (\<lambda>c. length c \<le> 102) (map subtitle (movieSubtitles n ?w))"
      unfolding 5 using 3 length_trim by (auto simp: list_all_iff intro: order_trans)
    then show ?thesis by (simp add: list_all_iff)
  qed
  have 7: "map part (movieSubtitles n ?w) = map (\<lambda>k. js ''part '' @ dec k) [1 ..< Suc (length ?w)]"
    unfolding movieSubtitles_def using part_rows[of n 0 ?w] by simp
  from 1 2 3 4 5 6 7 show ?thesis by blast
qed

text \<open>The theorem at the text \<^verbatim>\<open>Hi you\<close>.\<close>

theorem chunks_of_normalized_text_witness:
  "normalize (js ''Hi you'') \<noteq> [] \<and>
   list_all (\<lambda>c. c \<noteq> 0x2028 \<and> c \<noteq> 0x2029) (normalize (js ''Hi you'')) \<and>
   (\<exists>chunks.
      subtitleChunks (js ''Hi you'') = Some chunks \<and>
      chunks = windows 102 (normalize (js ''Hi you'')) \<and>
      length chunks = (length (normalize (js ''Hi you'')) + 101) div 102 \<and>
      list_all (\<lambda>c. length c \<le> 102) chunks \<and>
      concat chunks = normalize (js ''Hi you'') \<and>
      map subtitle (movieSubtitles (js ''A'') chunks) = map trim chunks \<and>
      list_all (\<lambda>r. length (subtitle r) \<le> 102) (movieSubtitles (js ''A'') chunks) \<and>
      map part (movieSubtitles (js ''A'') chunks) =
        map (\<lambda>k. js ''part '' @ dec k) [1 ..< Suc (length chunks)])"
proof -
  have n: "normalize (js ''Hi you'') = js ''Hi you''"
    by (simp add: string_defs regex_defs)
  have h1: "normalize (js ''Hi you'') \<noteq> []"
    unfolding n by (simp add: js_def)
  have h2: "list_all (\<lambda>c. c \<noteq> 0x2028 \<and> c \<noteq> 0x2029) (normalize (js ''Hi you''))"
    unfolding n by (simp add: js_def)
  from chunks_of_normalized_text[OF h1 h2, of "js ''A''"] h1 h2 show ?thesis
    by blast
qed

text \<open>
  Claim C1 as stated fails: the rows hold the trimmed windows, so concatenating the
  emitted chunks does not give back a normalized text that starts with a space. The text
  \<^verbatim>\<open>" a"\<close> is its own normalized form, and its only chunk is emitted as \<^verbatim>\<open>"a"\<close>.
\<close>

theorem round_trip_counterexample:
  "subtitleChunks (js '' a'') = Some [js '' a''] \<and>
   concat (map subtitle (movieSubtitles (js ''A'') [js '' a''])) = js ''a'' \<and>
   js ''a'' \<noteq> normalize (js '' a'')"
  by (simp add: string_defs regex_defs enumerate_eq_zip)

section \<open>Failures while one listing is processed\<close>

lemma startDownload_caught:
  "fst (startDownload_try E url w) = Inl e \<Longrightarrow>
   startDownload E url w = (Inr None, snd (startDownload_try E url w))"
  by (cases "startDownload_try E url w") (simp add: startDownload_def io_catch_def io_return_def)

lemma startDownload_passes:
  "fst (startDownload_try E url w) = Inr r \<Longrightarrow>
   startDownload E url w = (Inr r, snd (startDownload_try E url w))"
  by (cases "startDownload_try E url w") (simp add: startDownload_def io_catch_def io_return_def)

lemma startDownload_never_raises: "\<exists>r. fst (startDownload E url w) = Inr r"
  by (cases "startDownload_try E url w"; cases "fst (startDownload_try E url w)")
     (simp_all add: startDownload_def io_catch_def io_return_def)

lemma processMovie_resolver_error:
  assumes "heading movie = Some movieName" "movieName \<noteq> []"
    and "href movie = Some movieLink" "movieLink \<noteq> []"
    and "fst (getEnglishSubtitleLink E movieLink w) = Inl e"
  shows "processMovie E movieIndex movie w = (Inl e, snd (getEnglishSubtitleLink E movieLink w))"
  using assms
  by (cases "getEnglishSubtitleLink E movieLink w")
     (simp add: processMovie_def io_bind_def eval_sel_def io_return_def)

lemma processMovie_download_null:
  assumes "heading movie = Some movieName" "movieName \<noteq> []"
    and "href movie = Some movieLink" "movieLink \<noteq> []"
    and "fst (getEnglishSubtitleLink E movieLink w) = Inr (Some url)" "url \<noteq> []"
    and "fst (startDownload E url (snd (getEnglishSubtitleLink E movieLink w))) = Inr None"
  shows "processMovie E movieIndex movie w =
           (Inr None, snd (startDownload E url (snd (getEnglishSubtitleLink E movieLink w))))"
  using assms
  by (cases "getEnglishSubtitleLink E movieLink w";
      cases "startDownload E url (snd (getEnglishSubtitleLink E movieLink w))")
     (simp add: processMovie_def io_bind_def eval_sel_def io_return_def)

lemma loop_step:
  assumes "i < length movieList" "movieIndex \<le> maxMovies"
  shows "getMoviesList_loop E maxMovies movieList i movieIndex movies w =
           (case processMovie E movieIndex (movieList ! i) w of
              (Inl e, w') \<Rightarrow> (Inl e, w')
            | (Inr None, w') \<Rightarrow>
                getMoviesList_loop E maxMovies movieList (Suc i) movieIndex movies w'
            | (Inr (Some rows), w') \<Rightarrow>
                getMoviesList_loop E maxMovies movieList (Suc i) (Suc movieIndex)
                  (movies @ rows) w')"
  using assms by (subst getMoviesList_loop.simps) (simp add: nth_opt_def)

text \<open>
  In the chunked variant, while the listing at position \<open>i\<close> is processed: an error
  raised while the subtitle link is resolved is not caught and ends the loop with that
  error; an error raised inside the \<^verbatim>\<open>try\<close> of \<^verbatim>\<open>startDownload\<close> is caught there and
  becomes null, and the loop then goes on with the next listing of the page: no row is
  added and the index is not advanced.
\<close>

lemma download_failure_is_skipped:
  assumes "i < length movieList" and "movieIndex \<le> maxMovies"
    and "heading (movieList ! i) = Some movieName" and "movieName \<noteq> []"
    and "href (movieList ! i) = Some movieLink" and "movieLink \<noteq> []"
  shows
    "(fst (getEnglishSubtitleLink E movieLink w) = Inl e \<longrightarrow>
        getMoviesList_loop E maxMovies movieList i movieIndex movies w =
          (Inl e, snd (getEnglishSubtitleLink E movieLink w))) \<and>
     (fst (getEnglishSubtitleLink E movieLink w) = Inr (Some url) \<and> url \<noteq> [] \<and>
      fst (startDownload_try E url (snd (getEnglishSubtitleLink E movieLink w))) = Inl e' \<longrightarrow>
        fst (startDownload E url (snd (getEnglishSubtitleLink E movieLink w))) = Inr None \<and>
        getMoviesList_loop E maxMovies movieList i movieIndex movies w =
          getMoviesList_loop E maxMovies movieList (Suc i) movieIndex movies
            (snd (startDownload E url (snd (getEnglishSubtitleLink E movieLink w)))))"
proof (intro conjI impI)
  assume "fst (getEnglishSubtitleLink E movieLink w) = Inl e"
  from processMovie_resolver_error[OF assms(3-6) this]
  show "getMoviesList_loop E maxMovies movieList i movieIndex movies w =
          (Inl e, snd (getEnglishSubtitleLink E movieLink w))"
    by (simp add: loop_step[OF assms(1,2)])
next
  let ?w1 = "snd (getEnglishSubtitleLink E movieLink w)"
  assume a: "fst (getEnglishSubtitleLink E movieLink w) = Inr (Some url) \<and> url \<noteq> [] \<and>
      fst (startDownload_try E url ?w1) = Inl e'"
  then have null: "startDownload E url ?w1 = (Inr None, snd (startDownload_try E url ?w1))"
    by (simp add: startDownload_caught)
  then show "fst (startDownload E url ?w1) = Inr None" by simp
  from a null have "processMovie E movieIndex (movieList ! i) w =
      (Inr None, snd (startDownload E url ?w1))"
    using processMovie_download_null[OF assms(3-6), of E w url movieIndex] by simp
  then show "getMoviesList_loop E maxMovies movieList i movieIndex movies w =
          getMoviesList_loop E maxMovies movieList (Suc i) movieIndex movies
            (snd (startDownload E url ?w1))"
    by (simp add: loop_step[OF assms(1,2)])
qed

text \<open>On the catalog with A and B on every page and the download page of A unreachable,
  the chunked variant skips A on both pages that it reads and emits B twice.\<close>

lemma download_failure_skipped_within_page:
  "fst (scrapeMovies siteDownloadDown MAX_MOVIES_chunked disk0) =
     Inr [\<lparr>name = js ''B'', subtitle = js ''Bye'', part = js ''part 1''\<rparr>,
          \<lparr>name = js ''B'', subtitle = js ''Bye'', part = js ''part 1''\<rparr>]"
  by (simp add: run_defs chunked_defs)

text \<open>
  Claim C2 on a catalog whose download page of A cannot be reached. \<^verbatim>\<open>startDownload\<close>
  catches the failed navigation and returns null. In index.js the loop then calls
  \<^verbatim>\<open>downloadData.replace\<close> on that null and the run ends with a TypeError. In the chunked
  variant the listing is skipped, but A was the only listing of page 1, the page yields no
  row, and \<^verbatim>\<open>scrapeMovies\<close> takes that for the end of the catalog: the run ends with no
  record and never visits B on page 2, which the run on the intact catalog emits. A failed
  navigation to a detail page is caught nowhere and ends the run of both variants with
  that error.
\<close>

theorem stage_failure_ends_run:
  "fst (startDownload siteADown (js ''s/a'') disk0) = Inr None \<and>
   fst (scrapeMovies_index siteADown MAX_MOVIES_index disk0) = Inl TypeError \<and>
   fst (scrapeMovies siteADown MAX_MOVIES_chunked disk0) = Inr [] \<and>
   filter (\<lambda>e. e = Navigate (js ''m/b''))
     (trace (snd (scrapeMovies siteADown MAX_MOVIES_chunked disk0))) = [] \<and>
   fst (scrapeMovies (catalog (js ''Hi'')) MAX_MOVIES_chunked disk0) =
     Inr [\<lparr>name = js ''A'', subtitle = js ''Hi'', part = js ''part 1''\<rparr>,
          \<lparr>name = js ''B'', subtitle = js ''Bye'', part = js ''part 1''\<rparr>] \<and>
   fst (scrapeMovies siteDetailDown MAX_MOVIES_chunked disk0) = Inl NavigationError \<and>
   fst (scrapeMovies_index siteDetailDown MAX_MOVIES_index disk0) = Inl NavigationError"
  by (simp add: run_defs chunked_defs index_defs)

section \<open>A text that is empty after normalization\<close>

lemma subtitleChunks_empty: "normalize text = [] \<Longrightarrow> subtitleChunks text = None"
  by (simp add: subtitleChunks_def js_match_def match_alt_def re_chunk_def)

lemma processMovie_null_chunks:
  assumes "heading movie = Some movieName" "movieName \<noteq> []"
    and "href movie = Some movieLink" "movieLink \<noteq> []"
    and "fst (getEnglishSubtitleLink E movieLink w) = Inr (Some url)" "url \<noteq> []"
    and "fst (startDownload E url (snd (getEnglishSubtitleLink E movieLink w))) = Inr (Some text)"
    and "text \<noteq> []" and "subtitleChunks text = None"
  shows "fst (processMovie E movieIndex movie w) = Inl TypeError"
  using assms
  by (cases "getEnglishSubtitleLink E movieLink w";
      cases "startDownload E url (snd (getEnglishSubtitleLink E movieLink w))")
     (simp add: processMovie_def io_bind_def eval_sel_def io_return_def io_throw_def emit_def)

lemma loop_raises:
  assumes "i < length movieList" "movieIndex \<le> maxMovies"
    and "fst (processMovie E movieIndex (movieList ! i) w) = Inl e"
  shows "fst (getMoviesList_loop E maxMovies movieList i movieIndex movies w) = Inl e"
  using assms(3)
  by (cases "processMovie E movieIndex (movieList ! i) w") (simp add: loop_step[OF assms(1,2)])

lemma getMoviesList_raises:
  assumes "listings E pageNumber = Inr movieList" "movieList \<noteq> []"
    and "fst (getMoviesList_loop E maxMovies movieList 0 startIndex [] w) = Inl e"
  shows "fst (getMoviesList E maxMovies pageNumber startIndex w) = Inl e"
  using assms
  by (cases "getMoviesList_loop E maxMovies movieList 0 startIndex [] w")
     (simp add: getMoviesList_def io_bind_def)

lemma scrapeMovies_raises:
  assumes "movieCount \<le> maxMovies"
    and "fst (getMoviesList E maxMovies i startIndex w) = Inl e"
  shows "fst (scrapeMovies_loop E maxMovies i startIndex movieCount movies w) = Inl e"
  using assms
  by (cases "getMoviesList E maxMovies i startIndex w")
     (simp add: scrapeMovies_loop.simps[of E maxMovies i startIndex movieCount movies w])

text \<open>
  Claim C10, as the code has it. When the first listing of a page that the run visits
  resolves and downloads to a text that is not empty but whose normalized form is empty,
  \<^verbatim>\<open>match\<close> yields null, the \<^verbatim>\<open>map\<close> over it is a TypeError, and the run ends with that
  error before anything is written.
\<close>

theorem empty_normalized_text_aborts_run:
  assumes "movieCount \<le> maxMovies" and "startIndex \<le> maxMovies"
    and "listings E pageNumber = Inr (movie # others)"
    and "heading movie = Some movieName" and "movieName \<noteq> []"
    and "href movie = Some movieLink" and "movieLink \<noteq> []"
    and "fst (getEnglishSubtitleLink E movieLink w) = Inr (Some url)" and "url \<noteq> []"
    and "fst (startDownload E url (snd (getEnglishSubtitleLink E movieLink w))) = Inr (Some text)"
    and "text \<noteq> []" and "normalize text = []"
  shows "subtitleChunks text = None \<and>
         fst (scrapeMovies_loop E maxMovies pageNumber startIndex movieCount movies w) = Inl TypeError"
proof -
  have null: "subtitleChunks text = None"
    using assms(12) by (rule subtitleChunks_empty)
  have "fst (processMovie E startIndex ((movie # others) ! 0) w) = Inl TypeError"
    using processMovie_null_chunks[OF assms(4-11) null] by simp
  then have "fst (getMoviesList_loop E maxMovies (movie # others) 0 startIndex [] w) = Inl TypeError"
    using assms(2) by (intro loop_raises) simp_all
  then have "fst (getMoviesList E maxMovies pageNumber startIndex w) = Inl TypeError"
    using assms(3) by (intro getMoviesList_raises[where movieList = "movie # others"]) simp_all
  then have "fst (scrapeMovies_loop E maxMovies pageNumber startIndex movieCount movies w) = Inl TypeError"
    using assms(1) by (rule scrapeMovies_raises[rotated])
  with null show ?thesis by simp
qed

text \<open>The theorem on the catalog where the subtitle file of A is \<^verbatim>\<open><i>\<close>.\<close>

theorem empty_normalized_text_aborts_run_witness:
  "js ''<i>'' \<noteq> [] \<and> normalize (js ''<i>'') = [] \<and>
   fst (startDownload (catalog (js ''<i>'')) (js ''s/a'')
          (snd (getEnglishSubtitleLink (catalog (js ''<i>'')) (js ''m/a'') disk0))) = Inr (Some (js ''<i>'')) \<and>
   subtitleChunks (js ''<i>'') = None \<and>
   fst (scrapeMovies (catalog (js ''<i>'')) 2 disk0) = Inl TypeError"
proof -
  let ?E = "catalog (js ''<i>'')"
  have h1: "(0::nat) \<le> 2" "(1::nat) \<le> 2" by simp_all
  have h3: "listings ?E 1 = Inr (movieA # [])" by (simp add: catalog_def)
  have h4: "heading movieA = Some (js ''A'')" "js ''A'' \<noteq> []"
    "href movieA = Some (js ''m/a'')" "js ''m/a'' \<noteq> []"
    by (simp_all add: movieA_def js_def)
  have h8: "fst (getEnglishSubtitleLink ?E (js ''m/a'') disk0) = Inr (Some (js ''s/a''))"
    "js ''s/a'' \<noteq> []"
    by (simp_all add: run_defs)
  have h10: "fst (startDownload ?E (js ''s/a'')
          (snd (getEnglishSubtitleLink ?E (js ''m/a'') disk0))) = Inr (Some (js ''<i>''))"
    by (simp add: run_defs)
  have h11: "js ''<i>'' \<noteq> []" by (simp add: js_def)
  have h12: "normalize (js ''<i>'') = []" by (simp add: string_defs regex_defs)
  from empty_normalized_text_aborts_run[OF h1 h3 h4 h8 h10 h11 h12, of "[]"] h10 h11 h12
  show ?thesis by (simp add: scrapeMovies_def)
qed

text \<open>
  Claim C10 as stated fails for the empty text: \<^verbatim>\<open>!downloadData\<close> holds for the empty
  string, so the listing is skipped before the chunking, and the run goes on and ends
  normally. Here the subtitle file of A is empty and B follows on the same page.
\<close>

theorem empty_text_is_skipped_counterexample:
  "normalize [] = [] \<and>
   fst (startDownload siteEmptySrt (js ''s/a'')
          (snd (getEnglishSubtitleLink siteEmptySrt (js ''m/a'') disk0))) = Inr (Some []) \<and>
   fst (scrapeMovies siteEmptySrt 1 disk0) =
     Inr [\<lparr>name = js ''B'', subtitle = js ''Bye'', part = js ''part 1''\<rparr>]"
  by (simp add: run_defs chunked_defs)

section \<open>The archive on disk as a cache\<close>

lemma extractSubtitles_trace:
  "trace (snd (extractSubtitles E f d w)) = trace w @ [OpenZip f]"
  by (auto simp: extractSubtitles_def io_bind_def emit_def Let_def
        split: option.splits node.splits)


lemma store_keeps: "m q \<noteq> None \<Longrightarrow> store dir files m q \<noteq> None"
  unfolding store_def by (induction files arbitrary: m) auto

lemma store_keeps_Some: "m q = Some y \<Longrightarrow> \<exists>z. store dir files m q = Some z"
  using store_keeps[of m q dir files] by auto

lemma ensureDir_effect:
  assumes "ensureDir E p w = (r, w')"
  shows "transfers w' = transfers w" and "fs w q \<noteq> None \<Longrightarrow> fs w' q = fs w q"
    and "filter isNetwork (trace w') = filter isNetwork (trace w)"
  using assms
  by (auto simp: ensureDir_def io_bind_def existsSync_def mkdirSync_def io_return_def
        transfers_def split: if_splits)

lemma existsSync_effect:
  "existsSync p w = (Inr (fs w p \<noteq> None), w\<lparr>trace := trace w @ [ExistsSync p]\<rparr>)"
  by (simp add: existsSync_def)

lemma extractSubtitles_effect:
  assumes "extractSubtitles E f d w = (r, w')"
  shows "transfers w' = transfers w" and "fs w q \<noteq> None \<Longrightarrow> fs w' q \<noteq> None"
    and "filter isNetwork (trace w') = filter isNetwork (trace w)"
  using assms
  by (auto simp: extractSubtitles_def io_bind_def emit_def transfers_def Let_def
        intro: store_keeps_Some split: option.splits node.splits if_splits)


lemma downloadSubtitles_effect:
  assumes "downloadSubtitles E url d w = (r, w')"
  shows "transfers w' \<le> Suc (transfers w)"
proof (cases "downloads E url")
  case (Inl e)
  with assms show ?thesis
    by (auto simp: downloadSubtitles_def io_catch_def io_bind_def emit_def io_throw_def
          io_return_def transfers_def)
next
  case (Inr page)
  show ?thesis
  proof (cases page)
    case None
    with Inr assms show ?thesis
      by (auto simp: downloadSubtitles_def io_catch_def io_bind_def emit_def io_throw_def
            io_return_def transfers_def)
  next
    case (Some stored)
    let ?w3 = "w\<lparr>fs := store d stored (fs w),
                   trace := trace w @ [Navigate url, ClickDownload url, WaitForTimeout 10000]\<rparr>"
    let ?p = "path_join d (lastSegment url @ js ''.zip'')"
    obtain r3 w4 where x: "extractSubtitles E ?p d ?w3 = (r3, w4)"
      by (cases "extractSubtitles E ?p d ?w3")
    have "transfers w4 = transfers ?w3" by (rule extractSubtitles_effect(1)[OF x])
    moreover have "transfers ?w3 = Suc (transfers w)" by (simp add: transfers_def)
    moreover have "w' = w4"
      using assms Inr Some x
      by (cases r3) (simp_all add: downloadSubtitles_def io_catch_def io_bind_def emit_def
             io_return_def Let_def)
    ultimately show ?thesis by simp
  qed
qed

lemma downloadSubtitles_never_raises: "\<exists>r. fst (downloadSubtitles E url d w) = Inr r"
  unfolding downloadSubtitles_def io_catch_def io_return_def
  by (auto split: prod.splits sum.splits)


lemma startDownload_run:
  fixes E url w
  defines "p \<equiv> archivePath E url" and "folder \<equiv> movieFolder E url"
  obtains r1 w1 r2 w2 r4 w4 r5 w5 r6 w6 where
    "ensureDir E (path_join (cwd E) (js ''subtitles'')) w = (r1, w1)"
    "ensureDir E folder w1 = (r2, w2)"
    "extractSubtitles E p folder (w2\<lparr>trace := trace w2 @ [ExistsSync p]\<rparr>) = (r4, w4)"
    "downloadSubtitles E url folder (w2\<lparr>trace := trace w2 @ [ExistsSync p]\<rparr>) = (Inr r5, w5)"
    "extractSubtitles E p folder w5 = (r6, w6)"
    "startDownload E url w =
      (case r1 of Inl e \<Rightarrow> (Inr None, w1) | Inr _ \<Rightarrow>
       (case r2 of Inl e \<Rightarrow> (Inr None, w2) | Inr _ \<Rightarrow>
          if fs w2 p \<noteq> None
          then (case r4 of Inl e \<Rightarrow> (Inr None, w4) | Inr body \<Rightarrow> (Inr (Some body), w4))
          else (case r6 of Inl e \<Rightarrow> (Inr None, w6) | Inr body \<Rightarrow> (Inr (Some body), w6))))"
proof -
  let ?sd = "path_join (cwd E) (js ''subtitles'')"
  obtain r1 w1 where e1: "ensureDir E ?sd w = (r1, w1)"
    by (cases "ensureDir E ?sd w")
  obtain r2 w2 where e2: "ensureDir E folder w1 = (r2, w2)"
    by (cases "ensureDir E folder w1")
  let ?w3 = "w2\<lparr>trace := trace w2 @ [ExistsSync p]\<rparr>"
  obtain r5 w5 where d: "downloadSubtitles E url folder ?w3 = (Inr r5, w5)"
    using downloadSubtitles_never_raises[of E url folder ?w3]
    by (cases "downloadSubtitles E url folder ?w3") auto
  obtain r4 w4 where x4: "extractSubtitles E p folder ?w3 = (r4, w4)"
    by (cases "extractSubtitles E p folder ?w3")
  obtain r6 w6 where x6: "extractSubtitles E p folder w5 = (r6, w6)"
    by (cases "extractSubtitles E p folder w5")
  have "startDownload E url w =
      (case r1 of Inl e \<Rightarrow> (Inr None, w1) | Inr _ \<Rightarrow>
       (case r2 of Inl e \<Rightarrow> (Inr None, w2) | Inr _ \<Rightarrow>
          if fs w2 p \<noteq> None
          then (case r4 of Inl e \<Rightarrow> (Inr None, w4) | Inr body \<Rightarrow> (Inr (Some body), w4))
          else (case r6 of Inl e \<Rightarrow> (Inr None, w6) | Inr body \<Rightarrow> (Inr (Some body), w6))))"
    using e1 e2 d x4 x6 unfolding p_def folder_def
    by (cases r1; cases r2; cases r4; cases r6)
       (simp_all add: startDownload_def startDownload_try_def io_catch_def io_bind_def
          io_return_def Let_def existsSync_def)
  with e1 e2 x4 d x6 show ?thesis by (rule that)
qed


lemma startDownload_bound: "transfers (snd (startDownload E url w)) \<le> Suc (transfers w)"
proof -
  obtain r1 w1 r2 w2 r4 w4 r5 w5 r6 w6 where
    e1: "ensureDir E (path_join (cwd E) (js ''subtitles'')) w = (r1, w1)" and
    e2: "ensureDir E (movieFolder E url) w1 = (r2, w2)" and
    x4: "extractSubtitles E (archivePath E url) (movieFolder E url)
           (w2\<lparr>trace := trace w2 @ [ExistsSync (archivePath E url)]\<rparr>) = (r4, w4)" and
    d: "downloadSubtitles E url (movieFolder E url)
           (w2\<lparr>trace := trace w2 @ [ExistsSync (archivePath E url)]\<rparr>) = (Inr r5, w5)" and
    x6: "extractSubtitles E (archivePath E url) (movieFolder E url) w5 = (r6, w6)" and
    run: "startDownload E url w =
      (case r1 of Inl e \<Rightarrow> (Inr None, w1) | Inr _ \<Rightarrow>
       (case r2 of Inl e \<Rightarrow> (Inr None, w2) | Inr _ \<Rightarrow>
          if fs w2 (archivePath E url) \<noteq> None
          then (case r4 of Inl e \<Rightarrow> (Inr None, w4) | Inr body \<Rightarrow> (Inr (Some body), w4))
          else (case r6 of Inl e \<Rightarrow> (Inr None, w6) | Inr body \<Rightarrow> (Inr (Some body), w6))))"
    by (rule startDownload_run[where E = E and url = url and w = w])
  let ?w3 = "w2\<lparr>trace := trace w2 @ [ExistsSync (archivePath E url)]\<rparr>"
  have t1: "transfers w1 = transfers w" by (rule ensureDir_effect(1)[OF e1])
  have t2: "transfers w2 = transfers w1" by (rule ensureDir_effect(1)[OF e2])
  have t3: "transfers ?w3 = transfers w2" by (simp add: transfers_def)
  have t4: "transfers w4 = transfers ?w3" by (rule extractSubtitles_effect(1)[OF x4])
  have t5: "transfers w5 \<le> Suc (transfers ?w3)" by (rule downloadSubtitles_effect[OF d])
  have t6: "transfers w6 = transfers w5" by (rule extractSubtitles_effect(1)[OF x6])
  show ?thesis
    unfolding run using t1 t2 t3 t4 t5 t6 by (auto split: sum.splits)
qed















section \<open>How the end of a download is awaited\<close>

lemma extractSubtitles_missing:
  "fs w f = None \<Longrightarrow> fst (extractSubtitles E f d w) = Inl InvalidArchive"
  by (simp add: extractSubtitles_def io_bind_def emit_def)

text \<open>
  Claim C9, as the code has it. On a download page with a download button, whatever the
  browser has stored, \<^verbatim>\<open>downloadSubtitles\<close> clicks, waits 10000 ms and opens the archive
  path, with no look at the file system in between; when no file is at that path after
  the wait, it returns null.
\<close>

theorem download_waits_fixed_delay:
  assumes "downloads E url = Inr (Some stored)"
  shows "trace (snd (downloadSubtitles E url dir w)) =
           trace w @ [Navigate url, ClickDownload url, WaitForTimeout 10000,
                      OpenZip (path_join dir (lastSegment url @ js ''.zip''))] \<and>
         (store dir stored (fs w) (path_join dir (lastSegment url @ js ''.zip'')) = None \<longrightarrow>
            fst (downloadSubtitles E url dir w) = Inr None)"
proof -
  let ?p = "path_join dir (lastSegment url @ js ''.zip'')"
  let ?w3 = "w\<lparr>fs := store dir stored (fs w),
                 trace := trace w @ [Navigate url, ClickDownload url, WaitForTimeout 10000]\<rparr>"
  obtain r w4 where x: "extractSubtitles E ?p dir ?w3 = (r, w4)"
    by (cases "extractSubtitles E ?p dir ?w3")
  have run: "downloadSubtitles E url dir w =
      (case r of Inl e \<Rightarrow> (Inr None, w4) | Inr body \<Rightarrow> (Inr (Some body), w4))"
    using assms x
    by (cases r) (simp_all add: downloadSubtitles_def io_catch_def io_bind_def emit_def
           io_return_def Let_def)
  have tr: "trace w4 = trace ?w3 @ [OpenZip ?p]"
    using extractSubtitles_trace[of E ?p dir ?w3] x by simp
  have miss: "r = Inl InvalidArchive" if "store dir stored (fs w) ?p = None"
    using extractSubtitles_missing[of ?w3 ?p E dir] x that by simp
  show ?thesis
    unfolding run using tr miss by (auto split: sum.splits)
qed

text \<open>The theorem for the archive of A, once stored in time and once not.\<close>

theorem download_waits_fixed_delay_witness:
  "downloads (catalog (js ''Hi'')) (js ''s/a'') = Inr (Some [(js ''a.zip'', js ''PKA'')]) \<and>
   trace (snd (downloadSubtitles (catalog (js ''Hi'')) (js ''s/a'') (js ''/w/subtitles/a'') disk0)) =
     [Navigate (js ''s/a''), ClickDownload (js ''s/a''), WaitForTimeout 10000,
      OpenZip (js ''/w/subtitles/a/a.zip'')] \<and>
   fst (downloadSubtitles (catalog (js ''Hi'')) (js ''s/a'') (js ''/w/subtitles/a'') disk0) =
     Inr (Some (js ''Hi'')) \<and>
   downloads siteSlow (js ''s/a'') = Inr (Some []) \<and>
   store (js ''/w/subtitles/a'') [] (fs disk0) (js ''/w/subtitles/a/a.zip'') = None \<and>
   fst (downloadSubtitles siteSlow (js ''s/a'') (js ''/w/subtitles/a'') disk0) = Inr None"
proof -
  have d: "downloads (catalog (js ''Hi'')) (js ''s/a'') = Inr (Some [(js ''a.zip'', js ''PKA'')])"
    by (simp add: catalog_def js_def)
  have r: "fst (downloadSubtitles (catalog (js ''Hi'')) (js ''s/a'') (js ''/w/subtitles/a'') disk0) =
     Inr (Some (js ''Hi''))"
    by (simp add: run_defs)
  from download_waits_fixed_delay[OF d, of "js ''/w/subtitles/a''" disk0]
  have fast: "trace (snd (downloadSubtitles (catalog (js ''Hi'')) (js ''s/a'') (js ''/w/subtitles/a'') disk0)) =
     [Navigate (js ''s/a''), ClickDownload (js ''s/a''), WaitForTimeout 10000,
      OpenZip (js ''/w/subtitles/a/a.zip'')]"
    by (simp add: disk0_def string_defs)
  have d': "downloads siteSlow (js ''s/a'') = Inr (Some [])"
    by (simp add: siteSlow_def)
  have m: "store (js ''/w/subtitles/a'') [] (fs disk0) (js ''/w/subtitles/a/a.zip'') = None"
    by (simp add: store_def disk0_def)
  have p: "path_join (js ''/w/subtitles/a'') (lastSegment (js ''s/a'') @ js ''.zip'') =
      js ''/w/subtitles/a/a.zip''"
    by (simp add: string_defs)
  from download_waits_fixed_delay[OF d', of "js ''/w/subtitles/a''" disk0] m
  have slow: "fst (downloadSubtitles siteSlow (js ''s/a'') (js ''/w/subtitles/a'') disk0) = Inr None"
    unfolding p by blast
  from d r fast d' m slow show ?thesis by blast
qed

text \<open>
  Claim C9 as stated fails: when the browser has stored nothing by the end of the wait,
  the download step has still waited the fixed 10000 ms and then opened the archive path,
  which fails, without any \<^verbatim>\<open>existsSync\<close> after the click; \<^verbatim>\<open>startDownload\<close> returns null.
\<close>

theorem fixed_delay_counterexample:
  "fs (snd (downloadSubtitles siteSlow (js ''s/a'') (js ''/w/subtitles/a'') disk0))
      (js ''/w/subtitles/a/a.zip'') = None \<and>
   trace (snd (downloadSubtitles siteSlow (js ''s/a'') (js ''/w/subtitles/a'') disk0)) =
     [Navigate (js ''s/a''), ClickDownload (js ''s/a''), WaitForTimeout 10000,
      OpenZip (js ''/w/subtitles/a/a.zip'')] \<and>
   trace (snd (startDownload siteSlow (js ''s/a'') disk0)) =
     [ExistsSync (js ''/w/subtitles''), MkdirSync (js ''/w/subtitles''),
      ExistsSync (js ''/w/subtitles/a''), MkdirSync (js ''/w/subtitles/a''),
      ExistsSync (js ''/w/subtitles/a/a.zip''),
      Navigate (js ''s/a''), ClickDownload (js ''s/a''), WaitForTimeout 10000,
      OpenZip (js ''/w/subtitles/a/a.zip''), OpenZip (js ''/w/subtitles/a/a.zip'')] \<and>
   fst (startDownload siteSlow (js ''s/a'') disk0) = Inr None"
  by (simp add: run_defs)

section \<open>The subtitle link of a detail page\<close>

text \<open>With a table whose rows all have both cells, the link is that of the first row
  whose trimmed label is \<^verbatim>\<open>English\<close>, and null when there is none.\<close>

lemma findEnglish_first:
  assumes "list_all (\<lambda>r. sub_lang r \<noteq> None \<and> subtitle_download r \<noteq> None) rows"
  shows "findEnglish rows =
           Inr (case find (\<lambda>r. trim (the (sub_lang r)) = js ''English'') rows of
                  None \<Rightarrow> None
                | Some r \<Rightarrow> subtitle_download r)"
  using assms by (induction rows) auto

lemma getEnglishSubtitleLink_table:
  assumes "details E movieLink = Inr (Some rows)"
    and "list_all (\<lambda>r. sub_lang r \<noteq> None \<and> subtitle_download r \<noteq> None) rows"
  shows "fst (getEnglishSubtitleLink E movieLink w) =
           Inr (case find (\<lambda>r. trim (the (sub_lang r)) = js ''English'') rows of
                  None \<Rightarrow> None
                | Some r \<Rightarrow> subtitle_download r)"
  using assms(1) findEnglish_first[OF assms(2)]
  by (simp add: getEnglishSubtitleLink_def io_bind_def emit_def io_return_def)

text \<open>
  Claim C5 on a detail page without subtitle table: \<^verbatim>\<open>getEnglishSubtitleLink\<close> raises a
  TypeError, and the run ends with it in both variants.
\<close>

theorem missing_table_raises:
  "fst (getEnglishSubtitleLink siteNoTable (js ''m/a'') disk0) = Inl TypeError \<and>
   fst (scrapeMovies siteNoTable 2 disk0) = Inl TypeError \<and>
   fst (scrapeMovies_index siteNoTable 10 disk0) = Inl TypeError"
  by (simp add: run_defs chunked_defs index_defs)

section \<open>The subtitle file of an archive\<close>

text \<open>
  Claim C7 on an archive that holds \<^verbatim>\<open>info.nfo\<close> only. \<^verbatim>\<open>extractSubtitles\<close> of index.js and
  of the chunked variant rejects with the error of the claim and \<^verbatim>\<open>startDownload\<close> turns
  it into null; \<^verbatim>\<open>startDownload\<close> of the earliest variant raises a TypeError instead, and
  the run of index.js ends with a TypeError at \<^verbatim>\<open>downloadData.replace\<close>.
\<close>

theorem archive_without_srt_aborts_run:
  "fst (extractSubtitles siteNoSrt (js ''/w/subtitles/a/a.zip'') (js ''/w/subtitles/a'')
          (disk0\<lparr>fs := [js ''/w/subtitles/a/a.zip'' \<mapsto> File (js ''PKA'')]\<rparr>)) = Inl NoSubtitleFile \<and>
   fst (startDownload_p1 stringify siteNoSrt (js ''s/a'') disk0) = Inl TypeError \<and>
   fst (startDownload siteNoSrt (js ''s/a'') disk0) = Inr None \<and>
   fst (scrapeMovies_index siteNoSrt 10 disk0) = Inl TypeError"
  by (simp add: run_defs index_defs p1_defs)

section \<open>The listing loop and the item index\<close>

text \<open>In index.js the ids of the rows are \<open>1, 2, ...\<close> without gap, and there are at most
  \<^verbatim>\<open>MAX_MOVIES\<close> rows.\<close>

lemma processMovie_index_id:
  "processMovie_index E movieIndex movie w = (Inr (Some row), w') \<Longrightarrow> movie_id row = movieIndex"
  by (auto simp: processMovie_index_def io_bind_def io_return_def io_throw_def eval_sel_def emit_def
        split: option.splits sum.splits prod.splits if_splits)

lemma loop_index_ids:
  "getMoviesList_loop_index E maxMovies movieList i movieIndex movies w = (Inr rows, w') \<Longrightarrow>
   \<exists>new. rows = movies @ new \<and>
         map movie_id new = [movieIndex ..< movieIndex + length new] \<and>
         (new = [] \<or> movieIndex + length new \<le> Suc maxMovies)"
proof (induction E maxMovies movieList i movieIndex movies w
        rule: getMoviesList_loop_index.induct)
  case (1 E maxMovies movieList i movieIndex movies w)
  show ?case
  proof (cases "i \<le> length movieList \<and> movieIndex \<le> maxMovies")
    case False
    with 1(4) show ?thesis
      by (simp add: getMoviesList_loop_index.simps[of E maxMovies movieList i movieIndex movies w])
  next
    case True
    note run = 1(4)[unfolded getMoviesList_loop_index.simps[of E maxMovies movieList i movieIndex movies w]]
    show ?thesis
    proof (cases "nth_opt movieList i")
      case None
      with True run 1(1)[OF True None] show ?thesis by simp
    next
      case (Some movie)
      obtain r w1 where p: "processMovie_index E movieIndex movie w = (r, w1)"
        by (cases "processMovie_index E movieIndex movie w")
      show ?thesis
      proof (cases r)
        case (Inl e)
        with True Some p run show ?thesis by simp
      next
        case (Inr found)
        show ?thesis
        proof (cases found)
          case None
          with True Some p Inr run 1(2)[OF True Some p[symmetric] Inr None] show ?thesis
            by simp
        next
          case (Some row)
          have id: "movie_id row = movieIndex"
            using p Inr Some by (auto dest: processMovie_index_id)
          from True \<open>nth_opt movieList i = Some movie\<close> p Inr Some run
          have "getMoviesList_loop_index E maxMovies movieList (Suc i) (Suc movieIndex)
                  (movies @ [row]) w1 = (Inr rows, w')"
            by simp
          from 1(3)[OF True \<open>nth_opt movieList i = Some movie\<close> p[symmetric] Inr Some this]
          obtain new where new: "rows = (movies @ [row]) @ new"
            "map movie_id new = [Suc movieIndex ..< Suc movieIndex + length new]"
            "new = [] \<or> Suc movieIndex + length new \<le> Suc maxMovies"
            by blast
          have "movieIndex < movieIndex + length (row # new)" by simp
          from upt_conv_Cons[OF this]
          have "[movieIndex ..< movieIndex + length (row # new)] =
                  movieIndex # [Suc movieIndex ..< Suc movieIndex + length new]"
            by simp
          then have "map movie_id (row # new) = [movieIndex ..< movieIndex + length (row # new)]"
            using id new(2) by (simp del: upt_Suc)
          moreover have "movieIndex + length (row # new) \<le> Suc maxMovies"
            using new(3) True by auto
          ultimately show ?thesis
            using new(1) by (intro exI[of _ "row # new"]) simp
        qed
      qed
    qed
  qed
qed

lemma getMoviesList_index_ids:
  assumes "getMoviesList_index E maxMovies pageNumber startIndex w = (Inr (Some rows), w')"
  shows "map movie_id rows = [startIndex ..< startIndex + length rows] \<and>
         (rows = [] \<or> startIndex + length rows \<le> Suc maxMovies)"
proof -
  from assms obtain movieList where
    "getMoviesList_loop_index E maxMovies movieList 0 startIndex [] w = (Inr rows, w')"
    by (auto simp: getMoviesList_index_def io_bind_def io_return_def io_throw_def
          split: sum.splits if_splits prod.splits)
  from loop_index_ids[OF this] show ?thesis by simp
qed

lemma scrape_index_ids:
  "scrapeMovies_loop_index E maxMovies i startIndex movieCount movies w = (Inr rows, w') \<Longrightarrow>
   map movie_id movies = [1 ..< startIndex] \<Longrightarrow> startIndex = Suc movieCount \<Longrightarrow>
   movieCount \<le> maxMovies \<Longrightarrow>
   map movie_id rows = [1 ..< Suc (length rows)] \<and> length rows \<le> maxMovies"
proof (induction E maxMovies i startIndex movieCount movies w
        rule: scrapeMovies_loop_index.induct)
  case (1 E maxMovies i startIndex movieCount movies w)
  have len: "length movies = movieCount"
    using 1(3,4) by (metis diff_Suc_1 length_map length_upt)
  note run = 1(2)[unfolded scrapeMovies_loop_index.simps[of E maxMovies i startIndex movieCount movies w]]
  obtain r w1 where g: "getMoviesList_index E maxMovies i startIndex w = (r, w1)"
    by (cases "getMoviesList_index E maxMovies i startIndex w")
  show ?case
  proof (cases r)
    case (Inl e)
    with g run 1(5) show ?thesis by simp
  next
    case (Inr found)
    show ?thesis
    proof (cases found)
      case None
      with g Inr run 1(5) show ?thesis by simp
    next
      case (Some moviesList)
      from getMoviesList_index_ids[OF g[unfolded Inr Some]]
      have ids: "map movie_id moviesList = [startIndex ..< startIndex + length moviesList]"
        and cap: "moviesList = [] \<or> startIndex + length moviesList \<le> Suc maxMovies"
        by simp_all
      show ?thesis
      proof (cases "length moviesList = 0")
        case True
        with g Inr Some run 1(5) have "rows = movies" by simp
        with 1(3,4,5) len show ?thesis by simp
      next
        case False
        with g Inr Some run 1(5)
        have next_run: "scrapeMovies_loop_index E maxMovies (Suc i) (startIndex + length moviesList)
            (movieCount + length moviesList) (movies @ moviesList) w1 = (Inr rows, w')"
          by simp
        have "1 \<le> startIndex" using 1(4) by simp
        from upt_add_eq_append[OF this, of "length moviesList"]
        have a: "map movie_id (movies @ moviesList) = [1 ..< startIndex + length moviesList]"
          using 1(3) ids by simp
        have b: "startIndex + length moviesList = Suc (movieCount + length moviesList)"
          using 1(4) by simp
        have c: "movieCount + length moviesList \<le> maxMovies"
          using cap False 1(4) by auto
        from 1(1)[OF 1(5) g[symmetric] Inr Some False next_run a b c] show ?thesis .
      qed
    qed
  qed
qed

lemma scrapeMovies_index_ids:
  assumes "fst (scrapeMovies_index E maxMovies w) = Inr rows"
  shows "map movie_id rows = [1 ..< Suc (length rows)] \<and> length rows \<le> maxMovies"
proof -
  have "\<exists>w'. scrapeMovies_loop_index E maxMovies 1 1 0 [] w = (Inr rows, w')"
    using assms unfolding scrapeMovies_index_def by (metis prod.collapse)
  then obtain w' where run: "scrapeMovies_loop_index E maxMovies 1 1 0 [] w = (Inr rows, w')"
    by blast
  have "map movie_id ([] :: movie_row list) = [1 ..< 1]" by simp
  from scrape_index_ids[OF run this] show ?thesis by simp
qed

text \<open>
  Claim C3 on page 1 of the catalog, which has one listing: the loop of index.js reads
  \<^verbatim>\<open>movieList[1]\<close> and logs that it is undefined; the loop of the chunked variant does not.
\<close>

theorem loop_reads_past_last_listing:
  "listings (catalog (js ''Hi'')) 1 = Inr [movieA] \<and>
   filter (\<lambda>e. e = LogUndefined 1)
     (trace (snd (getMoviesList_index (catalog (js ''Hi'')) 10 1 1 disk0))) = [LogUndefined 1] \<and>
   filter (\<lambda>e. e = LogUndefined 1)
     (trace (snd (getMoviesList (catalog (js ''Hi'')) 10 1 1 disk0))) = []"
  by (simp add: run_defs index_defs chunked_defs)

lemma longText_plain:
  "list_all (\<lambda>c. \<not> isDigit c \<and> \<not> isWhiteSpace c \<and> c \<noteq> 0x3C) longText"
  by (simp add: longText_def list_all_iff isDigit_def isWhiteSpace_def)

lemma normalize_longText: "normalize longText = longText"
  using longText_plain by (rule normalize_plain)

lemma longText_chunks: "subtitleChunks longText = Some [replicate 102 0x41, [0x41]]"
proof -
  have lt: "list_all (\<lambda>c. \<not> isLineTerminator c) longText"
    by (simp add: longText_def list_all_iff isLineTerminator_def)
  have "windows 102 longText = [replicate 102 0x41, [0x41]]"
    by (simp add: longText_def windows_Cons)
  with matches_chunk[OF lt] show ?thesis
    by (simp add: subtitleChunks_def js_match_def normalize_longText)
qed

lemma longText_not_empty: "longText \<noteq> []"
  by (simp add: longText_def)

lemma length_movieSubtitles: "length (movieSubtitles n chunks) = length chunks"
  by (simp add: movieSubtitles_def)

lemma bye_chunks: "subtitleChunks (js ''Bye'') = Some [js ''Bye'']"
  by (simp add: string_defs regex_defs)

text \<open>No stage of the pipeline other than the loop body writes a \<^verbatim>\<open>Movie ${movieIndex}:\<close>
  line.\<close>

lemma ensureDir_logs:
  "filter isLogMovie (trace (snd (ensureDir E p w))) = filter isLogMovie (trace w)"
  by (simp add: ensureDir_def io_bind_def existsSync_def mkdirSync_def io_return_def)

lemma extractSubtitles_logs:
  "filter isLogMovie (trace (snd (extractSubtitles E f d w))) = filter isLogMovie (trace w)"
  by (simp add: extractSubtitles_trace)

lemma downloadSubtitles_logs:
  "filter isLogMovie (trace (snd (downloadSubtitles E url d w))) = filter isLogMovie (trace w)"
proof (cases "downloads E url")
  case (Inl e)
  then show ?thesis
    by (simp add: downloadSubtitles_def io_catch_def io_bind_def emit_def io_throw_def
          io_return_def)
next
  case (Inr page)
  show ?thesis
  proof (cases page)
    case None
    with Inr show ?thesis
      by (simp add: downloadSubtitles_def io_catch_def io_bind_def emit_def io_throw_def
            io_return_def)
  next
    case (Some stored)
    let ?w3 = "w\<lparr>fs := store d stored (fs w),
                   trace := trace w @ [Navigate url, ClickDownload url, WaitForTimeout 10000]\<rparr>"
    let ?p = "path_join d (lastSegment url @ js ''.zip'')"
    have "snd (downloadSubtitles E url d w) = snd (extractSubtitles E ?p d ?w3)"
      using Inr Some
      by (cases "extractSubtitles E ?p d ?w3"; cases "fst (extractSubtitles E ?p d ?w3)")
         (simp_all add: downloadSubtitles_def io_catch_def io_bind_def emit_def
             io_return_def Let_def)
    then show ?thesis by (simp add: extractSubtitles_logs)
  qed
qed

lemma startDownload_logs:
  "filter isLogMovie (trace (snd (startDownload E url w))) = filter isLogMovie (trace w)"
proof -
  obtain r1 w1 r2 w2 r4 w4 r5 w5 r6 w6 where
    e1: "ensureDir E (path_join (cwd E) (js ''subtitles'')) w = (r1, w1)" and
    e2: "ensureDir E (movieFolder E url) w1 = (r2, w2)" and
    x4: "extractSubtitles E (archivePath E url) (movieFolder E url)
           (w2\<lparr>trace := trace w2 @ [ExistsSync (archivePath E url)]\<rparr>) = (r4, w4)" and
    d: "downloadSubtitles E url (movieFolder E url)
           (w2\<lparr>trace := trace w2 @ [ExistsSync (archivePath E url)]\<rparr>) = (Inr r5, w5)" and
    x6: "extractSubtitles E (archivePath E url) (movieFolder E url) w5 = (r6, w6)" and
    run: "startDownload E url w =
      (case r1 of Inl e \<Rightarrow> (Inr None, w1) | Inr _ \<Rightarrow>
       (case r2 of Inl e \<Rightarrow> (Inr None, w2) | Inr _ \<Rightarrow>
          if fs w2 (archivePath E url) \<noteq> None
          then (case r4 of Inl e \<Rightarrow> (Inr None, w4) | Inr body \<Rightarrow> (Inr (Some body), w4))
          else (case r6 of Inl e \<Rightarrow> (Inr None, w6) | Inr body \<Rightarrow> (Inr (Some body), w6))))"
    by (rule startDownload_run[where E = E and url = url and w = w])
  let ?w3 = "w2\<lparr>trace := trace w2 @ [ExistsSync (archivePath E url)]\<rparr>"
  have l1: "filter isLogMovie (trace w1) = filter isLogMovie (trace w)"
    using ensureDir_logs[of E "path_join (cwd E) (js ''subtitles'')" w] e1 by simp
  have l2: "filter isLogMovie (trace w2) = filter isLogMovie (trace w)"
    using ensureDir_logs[of E "movieFolder E url" w1] e2 l1 by simp
  have l4: "filter isLogMovie (trace w4) = filter isLogMovie (trace w)"
    using extractSubtitles_logs[of E "archivePath E url" "movieFolder E url" ?w3] x4 l2 by simp
  have l5: "filter isLogMovie (trace w5) = filter isLogMovie (trace w)"
    using downloadSubtitles_logs[of E url "movieFolder E url" ?w3] d l2 by simp
  have l6: "filter isLogMovie (trace w6) = filter isLogMovie (trace w)"
    using extractSubtitles_logs[of E "archivePath E url" "movieFolder E url" w5] x6 l5 by simp
  show ?thesis
    unfolding run using l1 l2 l4 l6 by (auto split: sum.splits)
qed

lemma getEnglishSubtitleLink_trace:
  "trace (snd (getEnglishSubtitleLink E movieLink w)) = trace w @ [Navigate movieLink]"
  by (simp add: getEnglishSubtitleLink_def io_bind_def emit_def io_throw_def io_return_def
        split: sum.splits option.splits)

lemma subtitleChunks_not_empty: "subtitleChunks body = Some chunks \<Longrightarrow> chunks \<noteq> []"
  by (auto simp: subtitleChunks_def js_match_def split: list.splits)

lemma processMovie_logs:
  assumes "processMovie E movieIndex movie w = (r, w')"
  shows "(case r of
            Inl e \<Rightarrow> filter isLogMovie (trace w') = filter isLogMovie (trace w) \<or>
                     filter isLogMovie (trace w') = filter isLogMovie (trace w) @ [LogMovie movieIndex]
          | Inr None \<Rightarrow> filter isLogMovie (trace w') = filter isLogMovie (trace w)
          | Inr (Some rows) \<Rightarrow>
              filter isLogMovie (trace w') = filter isLogMovie (trace w) @ [LogMovie movieIndex] \<and>
              rows \<noteq> [])"
proof -
  have g: "filter isLogMovie (trace (snd (getEnglishSubtitleLink E l w))) = filter isLogMovie (trace w)" for l
    by (simp add: getEnglishSubtitleLink_trace)
  have s: "filter isLogMovie (trace (snd (startDownload E u (snd (getEnglishSubtitleLink E l w))))) =
      filter isLogMovie (trace w)" for l u
    by (simp add: startDownload_logs g)
  have m: "movieSubtitles n chunks \<noteq> []" if "subtitleChunks body = Some chunks" for n body chunks
    using subtitleChunks_not_empty[OF that] by (cases chunks) (simp_all add: movieSubtitles_def)
  show ?thesis
  proof (cases "heading movie")
    case None
    with assms show ?thesis
      by (auto simp: processMovie_def io_bind_def eval_sel_def io_throw_def)
  next
    case hd: (Some movieName)
    show ?thesis
    proof (cases "href movie")
      case None
      with hd assms show ?thesis
        by (auto simp: processMovie_def io_bind_def eval_sel_def io_throw_def io_return_def
              split: if_splits)
    next
      case hr: (Some movieLink)
      obtain rg wg where ge: "getEnglishSubtitleLink E movieLink w = (rg, wg)"
        by (cases "getEnglishSubtitleLink E movieLink w")
      have lg: "filter isLogMovie (trace wg) = filter isLogMovie (trace w)"
        using g[of movieLink] ge by simp
      show ?thesis
      proof (cases "movieName = [] \<or> movieLink = []")
        case True
        with hd hr assms show ?thesis
          by (auto simp: processMovie_def io_bind_def eval_sel_def io_throw_def io_return_def
                split: if_splits)
      next
        case ne: False
        show ?thesis
        proof (cases rg)
          case (Inl e)
          with hd hr ne ge lg assms show ?thesis
            by (auto simp: processMovie_def io_bind_def eval_sel_def io_return_def)
        next
          case (Inr link)
          show ?thesis
          proof (cases "link = None \<or> link = Some []")
            case True
            with hd hr ne ge lg Inr assms show ?thesis
              by (auto simp: processMovie_def io_bind_def eval_sel_def io_return_def)
          next
            case False
            then obtain url where url: "link = Some url" "url \<noteq> []" by auto
            obtain rs ws where sd: "startDownload E url wg = (rs, ws)"
              by (cases "startDownload E url wg")
            have ls: "filter isLogMovie (trace ws) = filter isLogMovie (trace w)"
              using startDownload_logs[of E url wg] sd lg by simp
            from hd hr ne ge Inr url sd assms
            have run: "(r, w') =
                (case rs of Inl e \<Rightarrow> (Inl e, ws)
                 | Inr None \<Rightarrow> (Inr None, ws)
                 | Inr (Some body) \<Rightarrow>
                     if body = [] then (Inr None, ws)
                     else (case subtitleChunks body of
                             None \<Rightarrow> (Inl TypeError, ws\<lparr>trace := trace ws @ [LogMovie movieIndex]\<rparr>)
                           | Some chunks \<Rightarrow> (Inr (Some (movieSubtitles movieName chunks)),
                                               ws\<lparr>trace := trace ws @ [LogMovie movieIndex]\<rparr>)))"
              by (auto simp: processMovie_def io_bind_def eval_sel_def io_return_def io_throw_def
                    emit_def split: sum.splits option.splits)
            show ?thesis
              using run ls m
              by (auto split: sum.splits option.splits if_splits)
          qed
        qed
      qed
    qed
  qed
qed

text \<open>
  The chunked variant: a pass of the inner loop that starts at \<open>movieIndex\<close> logs
  \<open>movieIndex, movieIndex + 1, ...\<close> without gap, one index for each listing that it
  emits rows for, and every such listing has at least one row.
\<close>

lemma logs_append:
  "a \<le> b \<Longrightarrow> map LogMovie [a ..< b] @ map LogMovie [b ..< b + s] = map LogMovie [a ..< b + s]"
proof -
  assume "a \<le> b"
  from upt_add_eq_append[OF this, of s] show ?thesis
    by (simp only: map_append)
qed

lemma logs_cons: "LogMovie a # map LogMovie [Suc a ..< Suc a + s] = map LogMovie [a ..< a + Suc s]"
proof -
  have "a < a + Suc s" by simp
  from upt_conv_Cons[OF this] show ?thesis by simp
qed

lemma loop_logs:
  "getMoviesList_loop E maxMovies movieList i movieIndex movies w = (r, w') \<Longrightarrow>
   \<exists>s. filter isLogMovie (trace w') =
          filter isLogMovie (trace w) @ map LogMovie [movieIndex ..< movieIndex + s] \<and>
       (s = 0 \<or> movieIndex + s \<le> Suc maxMovies) \<and>
       (\<forall>rows. r = Inr rows \<longrightarrow>
          (\<exists>new. rows = movies @ new \<and> s \<le> length new \<and> (new \<noteq> [] \<longrightarrow> 0 < s)))"
proof (induction E maxMovies movieList i movieIndex movies w rule: getMoviesList_loop.induct)
  case (1 E maxMovies movieList i movieIndex movies w)
  show ?case
  proof (cases "i < length movieList \<and> movieIndex \<le> maxMovies")
    case False
    with 1(4) have "r = Inr movies" "w' = w"
      by (simp_all add: getMoviesList_loop.simps[of E maxMovies movieList i movieIndex movies w])
    then show ?thesis by (intro exI[of _ 0]) simp
  next
    case True
    note run = 1(4)[unfolded getMoviesList_loop.simps[of E maxMovies movieList i movieIndex movies w]]
    show ?thesis
    proof (cases "nth_opt movieList i")
      case None
      with True run
      have "getMoviesList_loop E maxMovies movieList (Suc i) movieIndex movies
              (snd (emit (LogUndefined i) w)) = (r, w')"
        by simp
      from 1(1)[OF True None this] show ?thesis by (simp add: emit_def)
    next
      case (Some movie)
      obtain rp w1 where p: "processMovie E movieIndex movie w = (rp, w1)"
        by (cases "processMovie E movieIndex movie w")
      note logs = processMovie_logs[OF p]
      show ?thesis
      proof (cases rp)
        case (Inl e)
        with True Some p run have res: "r = Inl e" "w' = w1" by simp_all
        from logs Inl have
          "filter isLogMovie (trace w1) = filter isLogMovie (trace w) \<or>
           filter isLogMovie (trace w1) = filter isLogMovie (trace w) @ [LogMovie movieIndex]"
          by simp
        then show ?thesis
        proof
          assume "filter isLogMovie (trace w1) = filter isLogMovie (trace w)"
          with res show ?thesis by (intro exI[of _ 0]) simp
        next
          assume "filter isLogMovie (trace w1) = filter isLogMovie (trace w) @ [LogMovie movieIndex]"
          with res True show ?thesis by (intro exI[of _ 1]) simp
        qed
      next
        case (Inr found)
        show ?thesis
        proof (cases found)
          case None
          with True Some p Inr run
          have "getMoviesList_loop E maxMovies movieList (Suc i) movieIndex movies w1 = (r, w')"
            by simp
          from 1(2)[OF True Some p[symmetric] Inr None this] logs Inr None
          show ?thesis by simp
        next
          case (Some rows1)
          from logs Inr Some have l1:
            "filter isLogMovie (trace w1) = filter isLogMovie (trace w) @ [LogMovie movieIndex]"
            and ne: "rows1 \<noteq> []"
            by simp_all
          from True \<open>nth_opt movieList i = Some movie\<close> p Inr Some run
          have "getMoviesList_loop E maxMovies movieList (Suc i) (Suc movieIndex)
                  (movies @ rows1) w1 = (r, w')"
            by simp
          from 1(3)[OF True \<open>nth_opt movieList i = Some movie\<close> p[symmetric] Inr Some this]
          obtain s where s:
            "filter isLogMovie (trace w') =
               filter isLogMovie (trace w1) @ map LogMovie [Suc movieIndex ..< Suc movieIndex + s]"
            "s = 0 \<or> Suc movieIndex + s \<le> Suc maxMovies"
            "\<forall>rows. r = Inr rows \<longrightarrow>
               (\<exists>new. rows = (movies @ rows1) @ new \<and> s \<le> length new \<and> (new \<noteq> [] \<longrightarrow> 0 < s))"
            by blast
          have a: "filter isLogMovie (trace w') =
              filter isLogMovie (trace w) @ map LogMovie [movieIndex ..< movieIndex + Suc s]"
            using s(1) l1 logs_cons[of movieIndex s] by simp
          have b: "movieIndex + Suc s \<le> Suc maxMovies"
            using s(2) True by auto
          have c: "\<exists>new. rows = movies @ new \<and> Suc s \<le> length new \<and> (new \<noteq> [] \<longrightarrow> 0 < Suc s)"
            if "r = Inr rows" for rows
          proof -
            from s(3) that obtain new where "rows = (movies @ rows1) @ new" "s \<le> length new"
              by blast
            with ne show ?thesis
              by (intro exI[of _ "rows1 @ new"]) (cases rows1; simp)
          qed
          from a b c show ?thesis by (intro exI[of _ "Suc s"]) blast
        qed
      qed
    qed
  qed
qed

lemma getMoviesList_logs:
  assumes "getMoviesList E maxMovies pageNumber startIndex w = (r, w')"
  shows "\<exists>s. filter isLogMovie (trace w') =
          filter isLogMovie (trace w) @ map LogMovie [startIndex ..< startIndex + s] \<and>
       (s = 0 \<or> startIndex + s \<le> Suc maxMovies) \<and>
       (\<forall>rows. r = Inr (Some rows) \<longrightarrow> s \<le> length rows \<and> (rows \<noteq> [] \<longrightarrow> 0 < s))"
proof (cases "listings E pageNumber")
  case (Inl e)
  with assms have "w' = w" "r = Inl e"
    by (simp_all add: getMoviesList_def io_throw_def)
  then show ?thesis by (intro exI[of _ 0]) simp
next
  case (Inr movieList)
  show ?thesis
  proof (cases "length movieList = 0")
    case True
    with Inr assms have "w' = w" "r = Inr None"
      by (simp_all add: getMoviesList_def io_return_def)
    then show ?thesis by (intro exI[of _ 0]) simp
  next
    case False
    obtain rl wl where l: "getMoviesList_loop E maxMovies movieList 0 startIndex [] w = (rl, wl)"
      by (cases "getMoviesList_loop E maxMovies movieList 0 startIndex [] w")
    from Inr False assms l have res: "w' = wl" "r = (case rl of Inl e \<Rightarrow> Inl e | Inr rows \<Rightarrow> Inr (Some rows))"
      by (auto simp: getMoviesList_def io_bind_def io_return_def split: sum.splits)
    from loop_logs[OF l] obtain s where s:
      "filter isLogMovie (trace wl) =
          filter isLogMovie (trace w) @ map LogMovie [startIndex ..< startIndex + s]"
      "s = 0 \<or> startIndex + s \<le> Suc maxMovies"
      "\<forall>rows. rl = Inr rows \<longrightarrow>
          (\<exists>new. rows = [] @ new \<and> s \<le> length new \<and> (new \<noteq> [] \<longrightarrow> 0 < s))"
      by blast
    show ?thesis
      using s res by (intro exI[of _ s]) (auto split: sum.splits)
  qed
qed

lemma scrape_logs:
  "scrapeMovies_loop E maxMovies i startIndex movieCount movies w = (r, w') \<Longrightarrow>
   maxMovies \<le> 2 \<Longrightarrow>
   filter isLogMovie (trace w) = before @ map LogMovie [1 ..< n] \<Longrightarrow>
   1 \<le> n \<Longrightarrow> startIndex = n \<or> maxMovies < startIndex \<Longrightarrow>
   \<exists>m. filter isLogMovie (trace w') = before @ map LogMovie [1 ..< m]"
proof (induction E maxMovies i startIndex movieCount movies w arbitrary: n
        rule: scrapeMovies_loop.induct)
  case (1 E maxMovies i startIndex movieCount movies w)
  note run = 1(2)[unfolded scrapeMovies_loop.simps[of E maxMovies i startIndex movieCount movies w]]
  show ?case
  proof (cases "movieCount \<le> maxMovies")
    case False
    with run have "w' = w" by simp
    with 1(4) show ?thesis by blast
  next
    case True
    obtain rg w1 where g: "getMoviesList E maxMovies i startIndex w = (rg, w1)"
      by (cases "getMoviesList E maxMovies i startIndex w")
    from getMoviesList_logs[OF g] obtain s where s:
      "filter isLogMovie (trace w1) =
          filter isLogMovie (trace w) @ map LogMovie [startIndex ..< startIndex + s]"
      "s = 0 \<or> startIndex + s \<le> Suc maxMovies"
      "\<forall>rows. rg = Inr (Some rows) \<longrightarrow> s \<le> length rows \<and> (rows \<noteq> [] \<longrightarrow> 0 < s)"
      by blast
    have "\<exists>m. 1 \<le> m \<and> filter isLogMovie (trace w1) = before @ map LogMovie [1 ..< m] \<and>
              (s = 0 \<longrightarrow> m = n) \<and> (startIndex = n \<longrightarrow> m = n + s)"
    proof (cases "s = 0")
      case True
      with s(1) 1(4,5) show ?thesis by (intro exI[of _ n]) simp
    next
      case False
      with s(2) 1(6) have eq: "startIndex = n" by auto
      have "filter isLogMovie (trace w1) = before @ map LogMovie [1 ..< n + s]"
        using s(1) 1(4) logs_append[OF 1(5), of s] unfolding eq by simp
      with 1(5) eq show ?thesis by (intro exI[of _ "n + s"]) simp
    qed
    then obtain m where m: "1 \<le> m"
      "filter isLogMovie (trace w1) = before @ map LogMovie [1 ..< m]"
      "s = 0 \<longrightarrow> m = n" "startIndex = n \<longrightarrow> m = n + s"
      by blast
    show ?thesis
    proof (cases rg)
      case (Inl e)
      with True g run have "w' = w1" by simp
      with m(2) show ?thesis by blast
    next
      case (Inr found)
      show ?thesis
      proof (cases found)
        case None
        with True g Inr run have "w' = w1" by simp
        with m(2) show ?thesis by blast
      next
        case (Some moviesList)
        show ?thesis
        proof (cases "length moviesList = 0")
          case True
          with \<open>movieCount \<le> maxMovies\<close> g Inr Some run have "w' = w1" by simp
          with m(2) show ?thesis by blast
        next
          case False
          with True g Inr Some run
          have next_run: "scrapeMovies_loop E maxMovies (Suc i) (startIndex + length moviesList)
              (movieCount + length moviesList) (movies @ moviesList) w1 = (r, w')"
            by simp
          from s(3) Inr Some False have k: "s \<le> length moviesList" "0 < s" by auto
          have inv: "startIndex + length moviesList = m \<or> maxMovies < startIndex + length moviesList"
          proof (cases "startIndex = n")
            case True
            with m(4) have "m = n + s" by simp
            with True k 1(3,5) show ?thesis by auto
          next
            case False
            with 1(6) show ?thesis by auto
          qed
          from 1(1)[OF True g[symmetric] Inr Some False next_run 1(3) m(2) m(1) inv]
          show ?thesis .
        qed
      qed
    qed
  qed
qed

lemma scrapeMovies_logs:
  "\<exists>m. filter isLogMovie (trace (snd (scrapeMovies E MAX_MOVIES_chunked w))) =
         filter isLogMovie (trace w) @ map LogMovie [1 ..< m]"
proof -
  obtain r w' where run: "scrapeMovies_loop E 2 1 1 0 [] w = (r, w')"
    by (cases "scrapeMovies_loop E 2 1 1 0 [] w")
  have "filter isLogMovie (trace w) = filter isLogMovie (trace w) @ map LogMovie [1 ..< 1]"
    by simp
  from scrape_logs[OF run _ this] run show ?thesis
    by (simp add: scrapeMovies_def MAX_MOVIES_chunked_def)
qed

text \<open>
  Claim C4. In index.js every row carries its index, and the rows of a run have the ids
  \<open>1, 2, ..., n\<close> in this order, whatever the maximum and however many listings were
  skipped. The rows of the chunked variant carry no index; the index of a listing is the
  one in its log line \<^verbatim>\<open>Movie ${movieIndex}:\<close>, and with the maximum of the source,
  \<^verbatim>\<open>MAX_MOVIES = 2\<close>, the log lines of a run show \<open>1, 2, ...\<close> without gap, whatever the
  number of chunks of a listing.
\<close>

theorem item_index_has_no_gaps:
  "(fst (scrapeMovies_index E maxMovies w) = Inr rows \<longrightarrow>
      map movie_id rows = [1 ..< Suc (length rows)]) \<and>
   (\<exists>n. filter isLogMovie (trace (snd (scrapeMovies E MAX_MOVIES_chunked w))) =
          filter isLogMovie (trace w) @ map LogMovie [1 ..< n])"
proof (intro conjI impI)
  assume "fst (scrapeMovies_index E maxMovies w) = Inr rows"
  from scrapeMovies_index_ids[OF this]
  show "map movie_id rows = [1 ..< Suc (length rows)]" by simp
next
  show "\<exists>n. filter isLogMovie (trace (snd (scrapeMovies E MAX_MOVIES_chunked w))) =
          filter isLogMovie (trace w) @ map LogMovie [1 ..< n]"
    by (rule scrapeMovies_logs)
qed

text \<open>The theorem on the catalog where a listing without English subtitles precedes A on
  page 1 and B on page 2: index.js emits A with id 1 and B with id 2; the chunked variant
  logs 1 and 2 when A has one chunk, and 1 alone when A has two chunks (the run then
  ends after page 1).\<close>

theorem item_index_has_no_gaps_witness:
  "fst (scrapeMovies_index (siteSkips (js ''Hi'')) MAX_MOVIES_index disk0) =
     Inr [\<lparr>movie_id = 1, movie_name = js ''A'', movie_link = js ''m/a'',
            movie_subtitleLink = js ''s/a'', movie_subtitle = js ''Hi''\<rparr>,
          \<lparr>movie_id = 2, movie_name = js ''B'', movie_link = js ''m/b'',
            movie_subtitleLink = js ''s/b'', movie_subtitle = js ''Bye''\<rparr>] \<and>
   map movie_id
     [\<lparr>movie_id = 1, movie_name = js ''A'', movie_link = js ''m/a'',
        movie_subtitleLink = js ''s/a'', movie_subtitle = js ''Hi''\<rparr>,
      \<lparr>movie_id = 2, movie_name = js ''B'', movie_link = js ''m/b'',
        movie_subtitleLink = js ''s/b'', movie_subtitle = js ''Bye''\<rparr>] =
     [1 ..< Suc (length
        [\<lparr>movie_id = 1, movie_name = js ''A'', movie_link = js ''m/a'',
           movie_subtitleLink = js ''s/a'', movie_subtitle = js ''Hi''\<rparr>,
         \<lparr>movie_id = 2, movie_name = js ''B'', movie_link = js ''m/b'',
           movie_subtitleLink = js ''s/b'', movie_subtitle = js ''Bye''\<rparr>])] \<and>
   filter isLogMovie (trace (snd (scrapeMovies (siteSkips (js ''Hi'')) MAX_MOVIES_chunked disk0))) =
     [LogMovie 1, LogMovie 2] \<and>
   filter isLogMovie (trace (snd (scrapeMovies (siteSkips longText) MAX_MOVIES_chunked disk0))) =
     [LogMovie 1]"
proof -
  let ?rows = "[\<lparr>movie_id = 1, movie_name = js ''A'', movie_link = js ''m/a'',
                  movie_subtitleLink = js ''s/a'', movie_subtitle = js ''Hi''\<rparr>,
                \<lparr>movie_id = 2, movie_name = js ''B'', movie_link = js ''m/b'',
                  movie_subtitleLink = js ''s/b'', movie_subtitle = js ''Bye''\<rparr>]"
  have r: "fst (scrapeMovies_index (siteSkips (js ''Hi'')) MAX_MOVIES_index disk0) = Inr ?rows"
    by (simp add: run_defs index_defs)
  from item_index_has_no_gaps[where E = "siteSkips (js ''Hi'')" and maxMovies = MAX_MOVIES_index
      and w = disk0 and rows = ?rows] r
  have ids: "map movie_id ?rows = [1 ..< Suc (length ?rows)]"
    by blast
  have l2: "filter isLogMovie
      (trace (snd (scrapeMovies (siteSkips (js ''Hi'')) MAX_MOVIES_chunked disk0))) =
      [LogMovie 1, LogMovie 2]"
    by (simp add: run_defs chunked_defs)
  have l1: "filter isLogMovie
      (trace (snd (scrapeMovies (siteSkips longText) MAX_MOVIES_chunked disk0))) = [LogMovie 1]"
    by (simp add: catalog_defs string_defs io_defs stage_defs chunked_defs Let_def
          longText_chunks longText_not_empty length_movieSubtitles)
  from r ids l2 l1 show ?thesis by blast
qed

text \<open>
  The maximum matters for the chunked variant: \<^verbatim>\<open>startIndex += moviesList.length\<close> adds
  the number of rows, one for each chunk. With a maximum of 10 in place of the 2 of the
  source, A (two chunks) on page 1 is logged as movie 1 and B on page 2 as movie 3; with
  the maximum 2 the run is over before a page after a listing of two chunks is read.
\<close>

lemma chunk_count_advances_index_above_two:
  "fst (getMoviesList (catalog longText) 10 1 1 disk0) =
     Inr (Some (movieSubtitles (js ''A'') [replicate 102 0x41, [0x41]])) \<and>
   length (movieSubtitles (js ''A'') [replicate 102 0x41, [0x41]]) = 2 \<and>
   filter isLogMovie (trace (snd (scrapeMovies (catalog longText) 10 disk0))) =
     [LogMovie 1, LogMovie 3]"
  by (simp add: catalog_defs string_defs io_defs stage_defs chunked_defs Let_def
        longText_chunks longText_not_empty length_movieSubtitles
        bye_chunks[unfolded js_def, simplified])

section \<open>A page without listings\<close>

text \<open>
  Claim C8 on a catalog that ends after page 1: page 1 yields the row of A, page 2 yields
  null, and \<^verbatim>\<open>moviesList.length\<close> on that null ends the run with a TypeError before the
  rows are written.
\<close>

theorem empty_page_aborts_run:
  "fst (getMoviesList siteOnePage 2 1 1 disk0) =
     Inr (Some [\<lparr>name = js ''A'', subtitle = js ''Hi'', part = js ''part 1''\<rparr>]) \<and>
   fst (getMoviesList siteOnePage 2 2 2 (snd (getMoviesList siteOnePage 2 1 1 disk0))) = Inr None \<and>
   fst (scrapeMovies siteOnePage 2 disk0) = Inl TypeError"
  by (simp add: run_defs chunked_defs)

end
